theory Spec2Isabelle
  imports Main "HOL-Library.Word" "HOL-Library.Char_ord" "HOL-Library.List_Lexorder"
    "HOL-Library.AList" "HOL-Library.Multiset"
begin

unbundle bit_operations_syntax

section \<open>Python values and exceptions\<close>

text \<open>
  The exceptions that the code of \<^verbatim>\<open>content.py\<close> raises, catches or lets through.
  \<open>HTTPError n\<close> is \<^verbatim>\<open>tornado.web.HTTPError(n, ...)\<close>; \<open>NoMatch\<close> is
  \<^verbatim>\<open>ietfparse.errors.NoMatch\<close>; \<open>ValueError\<close> is what a malformed media type
  raises; \<open>TypeError\<close> is what passing \<^verbatim>\<open>None\<close> where a string is needed raises;
  \<open>AttributeError\<close> is what reading a field of \<^verbatim>\<open>None\<close> raises;
  \<open>DecodeError\<close> stands for any exception of a transcoder; \<open>StructError\<close> is
  \<^verbatim>\<open>struct.error\<close>.
\<close>

datatype py_error =
  KeyError | ValueError | TypeError | AttributeError | NoMatch | HTTPError nat | DecodeError
  | StructError

type_synonym byte = "8 word"

text \<open>
  The deserialized values (\<^verbatim>\<open>type_info.DeserializedType\<close>): the tree that a
  transcoder produces and consumes. Floats are left out. \<open>PNone\<close> is Python's
  \<^verbatim>\<open>None\<close>.
\<close>

datatype pyvalue =
    PNone
  | PBool bool
  | PInt int
  | PStr string
  | PBytes "byte list"
  | PList "pyvalue list"
  | PDict "(pyvalue \<times> pyvalue) list"

section \<open>String primitives of Python\<close>

text \<open>\<^verbatim>\<open>str.split(sep)\<close> for a one-character separator: never returns an empty list.\<close>

fun split_on :: "char \<Rightarrow> string \<Rightarrow> string list" where
  "split_on c [] = [[]]"
| "split_on c (x # xs) =
     (if x = c then [] # split_on c xs
      else (case split_on c xs of
              [] \<Rightarrow> [[x]]
            | w # ws \<Rightarrow> (x # w) # ws))"

text \<open>\<^verbatim>\<open>sep.join(parts)\<close>.\<close>

fun join :: "string \<Rightarrow> string list \<Rightarrow> string" where
  "join sep [] = []"
| "join sep [x] = x"
| "join sep (x # y # ys) = x @ sep @ join sep (y # ys)"

definition upper_chars :: string where
  "upper_chars = ''ABCDEFGHIJKLMNOPQRSTUVWXYZ''"

definition lower_chars :: string where
  "lower_chars = ''abcdefghijklmnopqrstuvwxyz''"

text \<open>\<^verbatim>\<open>str.lower()\<close> on the ASCII letters.\<close>

definition lower_char :: "char \<Rightarrow> char" where
  "lower_char c = (case map_of (zip upper_chars lower_chars) c of Some d \<Rightarrow> d | None \<Rightarrow> c)"

definition lower :: "string \<Rightarrow> string" where
  "lower s = map lower_char s"

definition isspace :: "char \<Rightarrow> bool" where
  "isspace c = (c \<in> set [CHR '' '', CHR 0x09, CHR 0x0A, CHR 0x0B, CHR 0x0C, CHR 0x0D])"

text \<open>\<^verbatim>\<open>str.strip()\<close>.\<close>

definition strip :: "string \<Rightarrow> string" where
  "strip s = rev (dropWhile isspace (rev (dropWhile isspace s)))"

section \<open>Media types (ietfparse)\<close>

text \<open>
  \<^verbatim>\<open>ietfparse.datastructures.ContentType\<close>: primary type, subtype, optional
  structured-syntax suffix and the parameter dictionary, held as an association list
  with unique keys.
\<close>

record ContentType =
  content_type :: string
  content_subtype :: string
  content_suffix :: "string option"
  parameters :: "(string \<times> string) list"

text \<open>
  Modelled from the spec: the constructor of \<^verbatim>\<open>ietfparse.datastructures.ContentType\<close>
  is not under src/. Section 3: type and subtype are lowercased, parameters are
  case-normalized on key (lowercased). A dictionary assignment replaces the value of a
  key that is present and appends a new key otherwise.
\<close>

definition set_parameter :: "(string \<times> string) list \<Rightarrow> string \<times> string \<Rightarrow> (string \<times> string) list" where
  "set_parameter d p = AList.update (lower (fst p)) (snd p) d"

definition new_ContentType ::
  "string \<Rightarrow> string \<Rightarrow> (string \<times> string) list \<Rightarrow> string option \<Rightarrow> ContentType" where
  "new_ContentType t st params suffix =
     \<lparr> content_type = lower (strip t),
       content_subtype = lower (strip st),
       content_suffix = map_option (\<lambda>x. lower (strip x)) suffix,
       parameters = foldl set_parameter [] params \<rparr>"

text \<open>
  Modelled from the spec: \<^verbatim>\<open>ContentType.__str__\<close> is not under src/. Section 3:
  serializing a MediaType renders \<^verbatim>\<open>type/subtype+suffix; k1=v1; k2=v2\<close> with
  the parameters alphabetized by key.
\<close>

definition str_parameter :: "(string \<times> string) list \<Rightarrow> string \<Rightarrow> string" where
  "str_parameter d name = name @ ''='' @ (case map_of d name of Some v \<Rightarrow> v | None \<Rightarrow> [])"

definition str_ContentType :: "ContentType \<Rightarrow> string" where
  "str_ContentType c =
     content_type c @ ''/'' @ content_subtype c
       @ (case content_suffix c of
            None \<Rightarrow> []
          | Some x \<Rightarrow> (if x = [] then [] else ''+'' @ x))
       @ (if parameters c = [] then []
          else ''; '' @ join ''; '' (map (str_parameter (parameters c))
                                          (sort (map fst (parameters c)))))"

text \<open>
  Modelled from the spec: \<^verbatim>\<open>ietfparse.headers.parse_content_type\<close> is not under
  src/. Section 4.1: the header fragment is parsed into primary type, subtype, optional
  \<^verbatim>\<open>+suffix\<close> and a parameter map, and parsing fails on a missing \<^verbatim>\<open>/\<close>
  separator or unbalanced quoting. The value of a parameter is lowercased:
  \<^verbatim>\<open>test_that_registered_content_types_are_normalized\<close> of tests.py finds
  \<^verbatim>\<open>type=WhatEver\<close> under \<^verbatim>\<open>type=whatever\<close>.
\<close>

definition dequote :: "string \<Rightarrow> py_error + string" where
  "dequote v =
     (if v \<noteq> [] \<and> hd v = CHR 0x22
      then (if 2 \<le> length v \<and> last v = CHR 0x22 then Inr (butlast (tl v)) else Inl ValueError)
      else Inr v)"

definition parse_parameter :: "string \<Rightarrow> py_error + (string \<times> string) option" where
  "parse_parameter param =
     (let p = strip param in
      if p = [] then Inr None
      else (case split_on CHR ''='' p of
              [name, v] \<Rightarrow>
                (case dequote (strip (lower v)) of
                   Inl e \<Rightarrow> Inl e
                 | Inr v' \<Rightarrow> Inr (Some (name, v')))
            | _ \<Rightarrow> Inl ValueError))"

fun parse_parameter_list :: "string list \<Rightarrow> py_error + (string \<times> string) list" where
  "parse_parameter_list [] = Inr []"
| "parse_parameter_list (p # ps) =
     (case parse_parameter p of
        Inl e \<Rightarrow> Inl e
      | Inr r \<Rightarrow>
          (case parse_parameter_list ps of
             Inl e \<Rightarrow> Inl e
           | Inr rs \<Rightarrow> Inr (case r of None \<Rightarrow> rs | Some x \<Rightarrow> x # rs)))"

definition parse_content_type :: "string \<Rightarrow> py_error + ContentType" where
  "parse_content_type s =
     (case split_on CHR '';'' s of
        [] \<Rightarrow> Inl ValueError
      | first # parts \<Rightarrow>
          (case split_on CHR ''/'' first of
             [t, st] \<Rightarrow>
               (case (if CHR ''+'' \<in> set st
                      then (case split_on CHR ''+'' st of
                              [a, b] \<Rightarrow> Inr (a, Some b)
                            | _ \<Rightarrow> Inl ValueError)
                      else Inr (st, None)) of
                  Inl e \<Rightarrow> Inl e
                | Inr (st', suffix) \<Rightarrow>
                    (case parse_parameter_list parts of
                       Inl e \<Rightarrow> Inl e
                     | Inr params \<Rightarrow> Inr (new_ContentType t st' params suffix)))
           | _ \<Rightarrow> Inl ValueError))"

section \<open>ContentSettings\<close>

text \<open>
  The class \<^verbatim>\<open>ContentSettings\<close>: \<open>handlers\<close> is the dictionary \<^verbatim>\<open>_handlers\<close>,
  \<open>available_types\<close> the list \<^verbatim>\<open>_available_types\<close>. The type \<open>'h\<close> is the type
  of the registered handler objects.
\<close>

record 'h ContentSettings =
  handlers :: "string \<rightharpoonup> 'h"
  available_types :: "ContentType list"
  default_content_type :: "string option"
  default_encoding :: "string option"

text \<open>\<^verbatim>\<open>ContentSettings.__init__\<close>.\<close>

definition ContentSettings_init :: "'h ContentSettings" where
  "ContentSettings_init =
     \<lparr> handlers = Map.empty, available_types = [],
       default_content_type = None, default_encoding = None \<rparr>"

text \<open>\<^verbatim>\<open>ContentSettings.__getitem__\<close>: a missing key raises \<^verbatim>\<open>KeyError\<close>.\<close>

definition getitem :: "'h ContentSettings \<Rightarrow> string \<Rightarrow> py_error + 'h" where
  "getitem self ct =
     (case parse_content_type ct of
        Inl e \<Rightarrow> Inl e
      | Inr parsed \<Rightarrow>
          (case handlers self (str_ContentType parsed) of
             None \<Rightarrow> Inl KeyError
           | Some h \<Rightarrow> Inr h))"

text \<open>
  \<^verbatim>\<open>ContentSettings.__setitem__\<close>: returns the exception, if any, and the settings
  after the call. The warning that the early return logs is not modelled.
\<close>

definition setitem :: "'h ContentSettings \<Rightarrow> string \<Rightarrow> 'h \<Rightarrow> py_error option \<times> 'h ContentSettings" where
  "setitem self ct handler =
     (case parse_content_type ct of
        Inl e \<Rightarrow> (Some e, self)
      | Inr parsed \<Rightarrow>
          (let key = str_ContentType parsed in
           if key \<in> dom (handlers self) then (None, self)
           else (None, self\<lparr> available_types := available_types self @ [parsed],
                              handlers := (handlers self)(key \<mapsto> handler) \<rparr>)))"

text \<open>\<^verbatim>\<open>ContentSettings.get\<close>: a plain dictionary lookup, no normalization.\<close>

definition get_handler :: "'h ContentSettings \<Rightarrow> string \<Rightarrow> 'h option" where
  "get_handler self ct = handlers self ct"

text \<open>The property \<^verbatim>\<open>available_content_types\<close>.\<close>

definition available_content_types :: "'h ContentSettings \<Rightarrow> ContentType list" where
  "available_content_types self = available_types self"

section \<open>The application and its settings\<close>

definition SETTINGS_KEY :: string where
  "SETTINGS_KEY = ''sprockets.mixins.mediatype.ContentSettings''"

text \<open>
  An application (\<^verbatim>\<open>type_info.ApplicationProtocol\<close>) is an object with a
  \<^verbatim>\<open>settings\<close> dictionary. The settings object is shared by reference in the
  source; here every function that changes it returns the application with the new
  object stored under \<open>SETTINGS_KEY\<close>.
\<close>

record 'h Application =
  settings :: "string \<rightharpoonup> 'h ContentSettings"

definition install ::
  "'h Application \<Rightarrow> string option \<Rightarrow> string option \<Rightarrow> 'h ContentSettings \<times> 'h Application" where
  "install application dct encoding =
     (case settings application SETTINGS_KEY of
        Some s \<Rightarrow> (s, application)
      | None \<Rightarrow>
          (let s = ContentSettings_init\<lparr> default_content_type := dct,
                                          default_encoding := encoding \<rparr>
           in (s, application\<lparr> settings := (settings application)(SETTINGS_KEY \<mapsto> s) \<rparr>)))"

definition get_settings ::
  "'h Application \<Rightarrow> bool \<Rightarrow> 'h ContentSettings option \<times> 'h Application" where
  "get_settings application force_instance =
     (case settings application SETTINGS_KEY of
        Some s \<Rightarrow> (Some s, application)
      | None \<Rightarrow>
          (if \<not> force_instance then (None, application)
           else (let (s, app') = install application None None in (Some s, app'))))"

section \<open>Transcoders\<close>

text \<open>
  An object that implements \<^verbatim>\<open>type_info.ContentHandlerProtocol\<close>: the attribute
  \<^verbatim>\<open>content_type\<close> and the two methods. \<^verbatim>\<open>to_bytes\<close> returns the content type
  to send and the encoded bytes. The mix-in never passes the optional encoding argument.
\<close>

record transcoder =
  handler_content_type :: string
  to_bytes :: "pyvalue \<Rightarrow> py_error + string \<times> byte list"
  from_bytes :: "byte list \<Rightarrow> py_error + pyvalue"

text \<open>\<^verbatim>\<open>FakeContentHandler\<close> of tests.py.\<close>

definition FakeContentHandler :: transcoder where
  "FakeContentHandler =
     \<lparr> handler_content_type = [],
       to_bytes = (\<lambda>_. Inr ([], [])),
       from_bytes = (\<lambda>_. Inr PNone) \<rparr>"

text \<open>\<^verbatim>\<open>add_transcoder\<close>: the exception, if any, and the application after the call.\<close>

definition add_transcoder ::
  "transcoder Application \<Rightarrow> transcoder \<Rightarrow> string option
     \<Rightarrow> py_error option \<times> transcoder Application" where
  "add_transcoder application t ct =
     (case get_settings application True of
        (None, app') \<Rightarrow> (Some AttributeError, app')
      | (Some s, app') \<Rightarrow>
          (let key = (case ct of
                        None \<Rightarrow> handler_content_type t
                      | Some c \<Rightarrow> (if c = [] then handler_content_type t else c));
               (e, s') = setitem s key t
           in (e, app'\<lparr> settings := (settings app')(SETTINGS_KEY \<mapsto> s') \<rparr>)))"

text \<open>\<^verbatim>\<open>set_default_content_type\<close>.\<close>

definition set_default_content_type ::
  "'h Application \<Rightarrow> string \<Rightarrow> string option \<Rightarrow> 'h Application" where
  "set_default_content_type application ct encoding =
     (case get_settings application True of
        (None, app') \<Rightarrow> app'
      | (Some s, app') \<Rightarrow>
          app'\<lparr> settings := (settings app')(SETTINGS_KEY \<mapsto>
                   s\<lparr> default_content_type := Some ct, default_encoding := encoding \<rparr>) \<rparr>)"

section \<open>Content negotiation (ietfparse)\<close>

text \<open>
  The two functions of ietfparse that negotiate, \<^verbatim>\<open>headers.parse_accept\<close> and
  \<^verbatim>\<open>algorithms.select_content_type\<close>, are not under src/. The mix-in takes them as
  a parameter: \<open>'a\<close> is the type of a parsed \<^verbatim>\<open>Accept\<close> header, and the selection
  returns the selected available type and the pattern that matched it, or raises
  \<open>NoMatch\<close>.
\<close>

record 'a negotiation =
  parse_accept :: "string \<Rightarrow> py_error + 'a"
  select_content_type :: "'a \<Rightarrow> ContentType list \<Rightarrow> py_error + ContentType \<times> ContentType"

text \<open>
  Modelled from the spec: \<^verbatim>\<open>ietfparse.headers.parse_accept\<close> is not under src/.
  Section 4.7, step 1: the header is parsed into ranges with a quality, 1.0 when none is
  given; ranges with quality 0 are excluded. A quality is held in thousandths.
\<close>

definition digit_value :: "char \<Rightarrow> nat option" where
  "digit_value c = map_of (zip ''0123456789'' [0 ..< 10]) c"

fun digits_value :: "string \<Rightarrow> nat option" where
  "digits_value [] = Some 0"
| "digits_value (c # cs) =
     (case digit_value c of
        None \<Rightarrow> None
      | Some d \<Rightarrow> (case digits_value cs of
                     None \<Rightarrow> None
                   | Some r \<Rightarrow> Some (d * 10 ^ length cs + r)))"

definition parse_quality :: "string \<Rightarrow> py_error + nat" where
  "parse_quality v =
     (case split_on CHR ''.'' v of
        [i] \<Rightarrow> (case digits_value i of
                  Some n \<Rightarrow> (if i \<noteq> [] \<and> n \<le> 1 then Inr (n * 1000) else Inl ValueError)
                | None \<Rightarrow> Inl ValueError)
      | [i, f] \<Rightarrow> (case (digits_value i, digits_value (take 3 (f @ ''000''))) of
                     (Some n, Some m) \<Rightarrow>
                       (if i \<noteq> [] \<and> n * 1000 + m \<le> 1000 then Inr (n * 1000 + m)
                        else Inl ValueError)
                   | _ \<Rightarrow> Inl ValueError)
      | _ \<Rightarrow> Inl ValueError)"

record media_range =
  range_type :: ContentType
  quality :: nat

definition parse_range :: "string \<Rightarrow> py_error + media_range" where
  "parse_range s =
     (case parse_content_type s of
        Inl e \<Rightarrow> Inl e
      | Inr c \<Rightarrow>
          (case map_of (parameters c) ''q'' of
             None \<Rightarrow> Inr \<lparr> range_type = c, quality = 1000 \<rparr>
           | Some v \<Rightarrow>
               (case parse_quality v of
                  Inl e \<Rightarrow> Inl e
                | Inr q \<Rightarrow> Inr \<lparr> range_type = c\<lparr> parameters := AList.delete ''q'' (parameters c) \<rparr>,
                                 quality = q \<rparr>)))"

fun parse_ranges :: "string list \<Rightarrow> py_error + media_range list" where
  "parse_ranges [] = Inr []"
| "parse_ranges (s # ss) =
     (case parse_range s of
        Inl e \<Rightarrow> Inl e
      | Inr r \<Rightarrow> (case parse_ranges ss of
                     Inl e \<Rightarrow> Inl e
                   | Inr rs \<Rightarrow> Inr (r # rs)))"

definition spec_parse_accept :: "string \<Rightarrow> py_error + media_range list" where
  "spec_parse_accept header =
     (case parse_ranges (split_on CHR '','' header) of
        Inl e \<Rightarrow> Inl e
      | Inr rs \<Rightarrow> Inr (filter (\<lambda>r. 0 < quality r) rs))"

text \<open>
  Modelled from the spec: \<^verbatim>\<open>ietfparse.algorithms.select_content_type\<close> is not
  under src/. Section 4.7, steps 2 and 3: an exact match of type, subtype, suffix and
  parameters (rank 0) beats a wildcard subtype (rank 1), which beats a full wildcard
  (rank 2); among equally specific matches the higher quality wins; ties go to the type
  registered first; when no range matches any available type the selection fails.
\<close>

definition match_rank :: "media_range \<Rightarrow> ContentType \<Rightarrow> nat option" where
  "match_rank r a =
     (let p = range_type r in
      if content_type p = ''*'' \<and> content_subtype p = ''*'' then Some 2
      else if content_subtype p = ''*'' \<and> content_type p = content_type a then Some 1
      else if content_type p = content_type a \<and> content_subtype p = content_subtype a
              \<and> content_suffix p = content_suffix a
              \<and> set (parameters p) = set (parameters a) then Some 0
      else None)"

definition candidates ::
  "media_range list \<Rightarrow> ContentType list \<Rightarrow> ((nat \<times> nat) \<times> ContentType \<times> ContentType) list" where
  "candidates acceptable available =
     concat (map (\<lambda>a. concat (map (\<lambda>r.
        (case match_rank r a of
           None \<Rightarrow> []
         | Some k \<Rightarrow> [((k, 1000 - quality r), a, range_type r)])) acceptable)) available)"

definition better :: "nat \<times> nat \<Rightarrow> nat \<times> nat \<Rightarrow> bool" where
  "better x y = (fst x < fst y \<or> (fst x = fst y \<and> snd x < snd y))"

definition spec_select_content_type ::
  "media_range list \<Rightarrow> ContentType list \<Rightarrow> py_error + ContentType \<times> ContentType" where
  "spec_select_content_type acceptable available =
     (case candidates acceptable available of
        [] \<Rightarrow> Inl NoMatch
      | c # cs \<Rightarrow> Inr (snd (foldl (\<lambda>best x. if better (fst x) (fst best) then x else best) c cs)))"

definition ietfparse :: "media_range list negotiation" where
  "ietfparse = \<lparr> parse_accept = spec_parse_accept,
                 select_content_type = spec_select_content_type \<rparr>"

section \<open>ContentMixin\<close>

text \<open>
  The request of a handler: its headers, looked up by their canonical name, and the raw
  body.
\<close>

record HTTPServerRequest =
  headers :: "string \<rightharpoonup> string"
  body :: "byte list"

text \<open>
  The state of a handler that mixes \<^verbatim>\<open>ContentMixin\<close> in: the application, the
  request, the two cache fields \<^verbatim>\<open>_request_body\<close> and \<^verbatim>\<open>_best_response_match\<close>,
  and what tornado's \<^verbatim>\<open>set_header\<close>, \<^verbatim>\<open>add_header\<close> and \<^verbatim>\<open>write\<close> collect.
\<close>

record RequestHandler =
  application :: "transcoder Application"
  request :: HTTPServerRequest
  request_body :: pyvalue
  best_response_match :: "string option"
  response_headers :: "(string \<times> string) list"
  write_buffer :: "byte list list"

text \<open>\<^verbatim>\<open>ContentMixin.initialize\<close>.\<close>

definition initialize :: "RequestHandler \<Rightarrow> RequestHandler" where
  "initialize self = self\<lparr> request_body := PNone, best_response_match := None \<rparr>"

text \<open>
  \<^verbatim>\<open>RequestHandler.set_header\<close> replaces the values of a header,
  \<^verbatim>\<open>RequestHandler.add_header\<close> adds a value, \<^verbatim>\<open>RequestHandler.write\<close>
  (here \<open>write_chunk\<close>) appends a chunk to the output.
\<close>

definition set_header :: "RequestHandler \<Rightarrow> string \<Rightarrow> string \<Rightarrow> RequestHandler" where
  "set_header self name v =
     self\<lparr> response_headers := filter (\<lambda>h. fst h \<noteq> name) (response_headers self) @ [(name, v)] \<rparr>"

definition add_header :: "RequestHandler \<Rightarrow> string \<Rightarrow> string \<Rightarrow> RequestHandler" where
  "add_header self name v = self\<lparr> response_headers := response_headers self @ [(name, v)] \<rparr>"

definition write_chunk :: "RequestHandler \<Rightarrow> byte list \<Rightarrow> RequestHandler" where
  "write_chunk self chunk = self\<lparr> write_buffer := write_buffer self @ [chunk] \<rparr>"

text \<open>
  Both \<^verbatim>\<open>get_response_content_type\<close> and \<^verbatim>\<open>get_request_body\<close> join the type and
  the subtype of a parsed media type with a slash and, when the suffix is not
  \<^verbatim>\<open>None\<close>, join the result and the suffix with a plus sign. The source writes the
  two joins out in each method.
\<close>

definition type_subtype_suffix :: "ContentType \<Rightarrow> string" where
  "type_subtype_suffix c =
     (let m = join ''/'' [content_type c, content_subtype c] in
      case content_suffix c of
        None \<Rightarrow> m
      | Some x \<Rightarrow> join ''+'' [m, x])"

text \<open>
  The value that \<^verbatim>\<open>get_response_content_type\<close> hands to \<^verbatim>\<open>parse_accept\<close>:
  the \<^verbatim>\<open>Accept\<close> header, or else the default content type when it is set and not
  empty, or else \<^verbatim>\<open>*/*\<close>.
\<close>

definition accept_header_value :: "'h ContentSettings \<Rightarrow> HTTPServerRequest \<Rightarrow> string" where
  "accept_header_value s req =
     (case headers req ''Accept'' of
        Some v \<Rightarrow> v
      | None \<Rightarrow>
          (case default_content_type s of
             None \<Rightarrow> ''*/*''
           | Some d \<Rightarrow> (if d \<noteq> [] then d else ''*/*'')))"

text \<open>
  \<^verbatim>\<open>ContentMixin.get_response_content_type\<close>: the value returned or the exception
  raised, and the handler after the call.
\<close>

definition get_response_content_type ::
  "'a negotiation \<Rightarrow> RequestHandler \<Rightarrow> (py_error + string option) \<times> RequestHandler" where
  "get_response_content_type lib self =
     (case best_response_match self of
        Some m \<Rightarrow> (Inr (Some m), self)
      | None \<Rightarrow>
          (case get_settings (application self) True of
             (None, app') \<Rightarrow> (Inl AttributeError, self\<lparr> application := app' \<rparr>)
           | (Some s, app') \<Rightarrow>
               (let self1 = self\<lparr> application := app' \<rparr> in
                case parse_accept lib (accept_header_value s (request self)) of
                  Inl e \<Rightarrow> (Inl e, self1)
                | Inr acceptable \<Rightarrow>
                    (case select_content_type lib acceptable (available_content_types s) of
                       Inr (selected, _) \<Rightarrow>
                         (Inr (Some (type_subtype_suffix selected)),
                          self1\<lparr> best_response_match := Some (type_subtype_suffix selected) \<rparr>)
                     | Inl e \<Rightarrow>
                         (if e = NoMatch
                          then (Inr (default_content_type s),
                                self1\<lparr> best_response_match := default_content_type s \<rparr>)
                          else (Inl e, self1))))))"

text \<open>
  \<^verbatim>\<open>ContentMixin.get_request_body\<close>. Without a \<^verbatim>\<open>Content-Type\<close> header and
  without a default content type the parser is called with \<^verbatim>\<open>None\<close>.
\<close>

definition get_request_body :: "RequestHandler \<Rightarrow> (py_error + pyvalue) \<times> RequestHandler" where
  "get_request_body self =
     (if request_body self \<noteq> PNone then (Inr (request_body self), self)
      else
        (case get_settings (application self) True of
           (None, app') \<Rightarrow> (Inl AttributeError, self\<lparr> application := app' \<rparr>)
         | (Some s, app') \<Rightarrow>
             (let self1 = self\<lparr> application := app' \<rparr> in
              case (case headers (request self) ''Content-Type'' of
                      Some v \<Rightarrow> Some v
                    | None \<Rightarrow> default_content_type s) of
                None \<Rightarrow> (Inl TypeError, self1)
              | Some v \<Rightarrow>
                  (case parse_content_type v of
                     Inl e \<Rightarrow> (Inl e, self1)
                   | Inr content_type_header \<Rightarrow>
                       (case getitem s (type_subtype_suffix content_type_header) of
                          Inl e \<Rightarrow>
                            (if e = KeyError then (Inl (HTTPError 415), self1)
                             else (Inl e, self1))
                        | Inr handler \<Rightarrow>
                            (case from_bytes handler (body (request self)) of
                               Inl e \<Rightarrow> (Inl (HTTPError 400), self1)
                             | Inr v \<Rightarrow> (Inr v, self1\<lparr> request_body := v \<rparr>)))))))"

text \<open>
  \<^verbatim>\<open>ContentMixin.send_response\<close>: the exception raised, if any, and the handler
  after the call.
\<close>

definition send_response ::
  "'a negotiation \<Rightarrow> RequestHandler \<Rightarrow> pyvalue \<Rightarrow> bool \<Rightarrow> py_error option \<times> RequestHandler" where
  "send_response lib self b set_content_type =
     (case get_settings (application self) True of
        (None, app') \<Rightarrow> (Some AttributeError, self\<lparr> application := app' \<rparr>)
      | (Some s, app') \<Rightarrow>
          (case get_response_content_type lib (self\<lparr> application := app' \<rparr>) of
             (Inl e, self2) \<Rightarrow> (Some e, self2)
           | (Inr response_type, self2) \<Rightarrow>
               (case response_type of
                  None \<Rightarrow> (Some (HTTPError 415), self2)
                | Some rt \<Rightarrow>
                    (if rt = [] then (Some (HTTPError 415), self2)
                     else
                       (case getitem s rt of
                          Inl e \<Rightarrow> (Some e, self2)
                        | Inr handler \<Rightarrow>
                            (case to_bytes handler b of
                               Inl e \<Rightarrow> (Some e, self2)
                             | Inr (ct, data_bytes) \<Rightarrow>
                                 (None,
                                  write_chunk (if set_content_type
                                         then add_header (set_header self2 ''Content-Type'' ct)
                                                ''Vary'' ''Accept''
                                         else self2) data_bytes)))))))"

section \<open>Applications and handlers of the examples and tests\<close>

text \<open>
  \<^verbatim>\<open>create_handler_instance\<close> of tests.py: a handler for a request with the given
  headers and body, after \<^verbatim>\<open>initialize\<close>.
\<close>

definition fresh_handler ::
  "transcoder Application \<Rightarrow> (string \<times> string) list \<Rightarrow> byte list \<Rightarrow> RequestHandler" where
  "fresh_handler app hs b =
     initialize \<lparr> application = app, request = \<lparr> headers = map_of hs, body = b \<rparr>,
                  request_body = PNone, best_response_match = None,
                  response_headers = [], write_buffer = [] \<rparr>"

text \<open>
  Modelled from the spec: \<^verbatim>\<open>handlers.BinaryContentHandler\<close> is not under src/.
  Section 4.4: it wraps a byte-based pack/unpack pair and \<^verbatim>\<open>to_bytes\<close> returns the
  registered content type unchanged.
\<close>

definition BinaryContentHandler ::
  "string \<Rightarrow> (pyvalue \<Rightarrow> py_error + byte list) \<Rightarrow> (byte list \<Rightarrow> py_error + pyvalue) \<Rightarrow> transcoder" where
  "BinaryContentHandler ct pack unpack =
     \<lparr> handler_content_type = ct,
       to_bytes = (\<lambda>v. case pack v of Inl e \<Rightarrow> Inl e | Inr bs \<Rightarrow> Inr (ct, bs)),
       from_bytes = unpack \<rparr>"

text \<open>
  A binary transcoder for raw octets: it packs a byte string as it is, refuses any other
  value, and refuses to unpack an empty body.
\<close>

definition pack_octets :: "pyvalue \<Rightarrow> py_error + byte list" where
  "pack_octets v = (case v of PBytes bs \<Rightarrow> Inr bs | _ \<Rightarrow> Inl TypeError)"

definition unpack_octets :: "byte list \<Rightarrow> py_error + pyvalue" where
  "unpack_octets bs = (if bs = [] then Inl DecodeError else Inr (PBytes bs))"

definition octet_transcoder :: transcoder where
  "octet_transcoder = BinaryContentHandler ''application/octet-stream'' pack_octets unpack_octets"

text \<open>An application with one transcoder, registered for JSON, and no default.\<close>

definition json_only_application :: "transcoder Application" where
  "json_only_application =
     snd (add_transcoder \<lparr> settings = Map.empty \<rparr> FakeContentHandler (Some ''application/json''))"

text \<open>An application with the octet transcoder under its own content type, and no default.\<close>

definition octet_application :: "transcoder Application" where
  "octet_application = snd (add_transcoder \<lparr> settings = Map.empty \<rparr> octet_transcoder None)"

text \<open>
  An application whose default content type is JSON and whose only transcoder is
  registered for MessagePack.
\<close>

definition msgpack_only_application :: "transcoder Application" where
  "msgpack_only_application =
     snd (add_transcoder
            (set_default_content_type \<lparr> settings = Map.empty \<rparr> ''application/json'' (Some ''utf-8''))
            FakeContentHandler (Some ''application/msgpack''))"

text \<open>An application whose only transcoder is registered under a key with a parameter.\<close>

definition versioned_json_application :: "transcoder Application" where
  "versioned_json_application =
     snd (add_transcoder \<lparr> settings = Map.empty \<rparr> FakeContentHandler
            (Some ''application/json; version=1''))"


section \<open>The MessagePack encoder\<close>

text \<open>
  \<^verbatim>\<open>struct.pack\<close> with a big-endian format: the \<open>k\<close> low bytes of an integer, the
  most significant first.
\<close>

definition be_bytes :: "nat \<Rightarrow> int \<Rightarrow> byte list" where
  "be_bytes k n = map (\<lambda>i. of_int (n div 256 ^ i)) (rev [0 ..< k])"

definition encode_chars :: "string \<Rightarrow> byte list" where
  "encode_chars s = map of_char s"

text \<open>
  \<^verbatim>\<open>pack_string\<close> of tests.py, for an object that is a string already. Encoding a
  character outside ASCII raises \<^verbatim>\<open>UnicodeEncodeError\<close>, a \<^verbatim>\<open>ValueError\<close>;
  \<^verbatim>\<open>struct.pack\<close> raises for a length that does not fit in 32 bits.
\<close>

definition pack_string :: "string \<Rightarrow> py_error + byte list" where
  "pack_string obj =
     (if \<not> list_all (\<lambda>c. (of_char c :: nat) < 128) obj then Inl ValueError
      else
        (let payload = encode_chars obj; pl = length payload in
         if pl < 2 ^ 5 then Inr ([0xA0 OR of_nat pl] @ payload)
         else if pl < 2 ^ 8 then Inr ([0xD9, of_nat pl] @ payload)
         else if pl < 2 ^ 16 then Inr ([0xDA] @ be_bytes 2 (int pl) @ payload)
         else if pl < 2 ^ 32 then Inr ([0xDB] @ be_bytes 4 (int pl) @ payload)
         else Inl StructError))"

text \<open>\<^verbatim>\<open>pack_bytes\<close> of tests.py.\<close>

definition pack_bytes :: "byte list \<Rightarrow> py_error + byte list" where
  "pack_bytes payload =
     (let pl = length payload in
      if pl < 2 ^ 8 then Inr ([0xC4, of_nat pl] @ payload)
      else if pl < 2 ^ 16 then Inr ([0xC5] @ be_bytes 2 (int pl) @ payload)
      else if pl < 2 ^ 32 then Inr ([0xC6] @ be_bytes 4 (int pl) @ payload)
      else Inl StructError)"

text \<open>
  Modelled from the spec: \<^verbatim>\<open>transcoders.MsgPackTranscoder.packb\<close> and the encoder
  it calls are not under src/. Section 4.5: nil and booleans have fixed one-byte codes;
  an integer takes the positive fixint, the negative fixint or the narrowest of the 1, 2,
  4 and 8 byte unsigned and signed forms, big-endian; a string takes fixstr, str8, str16
  or str32 by its byte length; a byte buffer takes bin8, bin16 or bin32; a sequence takes
  fixarray, array16 or array32 by its element count and a mapping fixmap, map16 or map32
  by its pair count, each element encoded in turn; a value that no form holds fails with
  a \<^verbatim>\<open>TypeError\<close>. A string is held as its UTF-8 bytes. Floats and the extension
  scalars, which are converted to strings first, are left out.
\<close>

definition pack_integer :: "int \<Rightarrow> py_error + byte list" where
  "pack_integer n =
     (if 0 \<le> n then
        (if n < 2 ^ 7 then Inr [of_int n]
         else if n < 2 ^ 8 then Inr (0xCC # be_bytes 1 n)
         else if n < 2 ^ 16 then Inr (0xCD # be_bytes 2 n)
         else if n < 2 ^ 32 then Inr (0xCE # be_bytes 4 n)
         else if n < 2 ^ 64 then Inr (0xCF # be_bytes 8 n)
         else Inl TypeError)
      else
        (if - (2 ^ 5) \<le> n then Inr [of_int n]
         else if - (2 ^ 7) \<le> n then Inr (0xD0 # be_bytes 1 n)
         else if - (2 ^ 15) \<le> n then Inr (0xD1 # be_bytes 2 n)
         else if - (2 ^ 31) \<le> n then Inr (0xD2 # be_bytes 4 n)
         else if - (2 ^ 63) \<le> n then Inr (0xD3 # be_bytes 8 n)
         else Inl TypeError))"

definition pack_str :: "string \<Rightarrow> py_error + byte list" where
  "pack_str s =
     (let payload = encode_chars s; pl = length payload in
      if pl < 2 ^ 5 then Inr ((0xA0 OR of_nat pl) # payload)
      else if pl < 2 ^ 8 then Inr (0xD9 # be_bytes 1 (int pl) @ payload)
      else if pl < 2 ^ 16 then Inr (0xDA # be_bytes 2 (int pl) @ payload)
      else if pl < 2 ^ 32 then Inr (0xDB # be_bytes 4 (int pl) @ payload)
      else Inl TypeError)"

definition pack_bin :: "byte list \<Rightarrow> py_error + byte list" where
  "pack_bin payload =
     (let pl = length payload in
      if pl < 2 ^ 8 then Inr (0xC4 # be_bytes 1 (int pl) @ payload)
      else if pl < 2 ^ 16 then Inr (0xC5 # be_bytes 2 (int pl) @ payload)
      else if pl < 2 ^ 32 then Inr (0xC6 # be_bytes 4 (int pl) @ payload)
      else Inl TypeError)"

definition pack_array_header :: "nat \<Rightarrow> py_error + byte list" where
  "pack_array_header n =
     (if n < 2 ^ 4 then Inr [0x90 OR of_nat n]
      else if n < 2 ^ 16 then Inr (0xDC # be_bytes 2 (int n))
      else if n < 2 ^ 32 then Inr (0xDD # be_bytes 4 (int n))
      else Inl TypeError)"

definition pack_map_header :: "nat \<Rightarrow> py_error + byte list" where
  "pack_map_header n =
     (if n < 2 ^ 4 then Inr [0x80 OR of_nat n]
      else if n < 2 ^ 16 then Inr (0xDE # be_bytes 2 (int n))
      else if n < 2 ^ 32 then Inr (0xDF # be_bytes 4 (int n))
      else Inl TypeError)"

function (sequential) packb :: "pyvalue \<Rightarrow> py_error + byte list"
  and packb_all :: "pyvalue list \<Rightarrow> py_error + byte list"
  and packb_items :: "(pyvalue \<times> pyvalue) list \<Rightarrow> py_error + byte list" where
  "packb PNone = Inr [0xC0]"
| "packb (PBool b) = Inr [if b then 0xC3 else 0xC2]"
| "packb (PInt n) = pack_integer n"
| "packb (PStr s) = pack_str s"
| "packb (PBytes bs) = pack_bin bs"
| "packb (PList xs) =
     (case pack_array_header (length xs) of
        Inl e \<Rightarrow> Inl e
      | Inr h \<Rightarrow> (case packb_all xs of Inl e \<Rightarrow> Inl e | Inr bs \<Rightarrow> Inr (h @ bs)))"
| "packb (PDict kvs) =
     (case pack_map_header (length kvs) of
        Inl e \<Rightarrow> Inl e
      | Inr h \<Rightarrow> (case packb_items kvs of Inl e \<Rightarrow> Inl e | Inr bs \<Rightarrow> Inr (h @ bs)))"
| "packb_all [] = Inr []"
| "packb_all (x # xs) =
     (case packb x of
        Inl e \<Rightarrow> Inl e
      | Inr b \<Rightarrow> (case packb_all xs of Inl e \<Rightarrow> Inl e | Inr bs \<Rightarrow> Inr (b @ bs)))"
| "packb_items [] = Inr []"
| "packb_items (kv # kvs) =
     (case packb (fst kv) of
        Inl e \<Rightarrow> Inl e
      | Inr k \<Rightarrow>
          (case packb (snd kv) of
             Inl e \<Rightarrow> Inl e
           | Inr v \<Rightarrow> (case packb_items kvs of Inl e \<Rightarrow> Inl e | Inr bs \<Rightarrow> Inr (k @ v @ bs))))"
  by pat_completeness auto
termination
  by (relation "measure (case_sum size
                   (case_sum (size_list size) (size_list (\<lambda>p. Suc (size (fst p) + size (snd p))))))")
     (auto simp: size_prod_simp)

text \<open>
  Modelled from the spec: \<^verbatim>\<open>transcoders.MsgPackTranscoder.unpackb\<close> and the decoder
  it calls are not under src/. Section 4.5: the decoder reads the leading tag byte,
  dispatches to the matching family and decodes recursively; it fails on truncated
  input and on an unrecognized tag byte. Every form of a family is accepted, the
  narrowest or not. The tags of floats and of extension types are not recognized here.
\<close>

definition be_value :: "byte list \<Rightarrow> nat" where
  "be_value bs = foldl (\<lambda>a b. a * 256 + unat b) 0 bs"

definition signed_value :: "nat \<Rightarrow> nat \<Rightarrow> int" where
  "signed_value k u = (if u < 2 ^ (8 * k - 1) then int u else int u - 2 ^ (8 * k))"

definition decode_chars :: "byte list \<Rightarrow> string" where
  "decode_chars bs = map (\<lambda>b. char_of (unat b)) bs"

definition take_bytes :: "nat \<Rightarrow> byte list \<Rightarrow> py_error + byte list \<times> byte list" where
  "take_bytes k bs = (if length bs < k then Inl DecodeError else Inr (take k bs, drop k bs))"

text \<open>
  What a tag byte and the bytes of its own form give: a finished scalar, or the element
  count of a sequence or the pair count of a mapping whose elements follow.
\<close>

datatype header = Scalar pyvalue | Elements nat | Pairs nat

definition read_uint :: "nat \<Rightarrow> byte list \<Rightarrow> py_error + nat \<times> byte list" where
  "read_uint k bs =
     (case take_bytes k bs of
        Inl e \<Rightarrow> Inl e
      | Inr (h, r) \<Rightarrow> Inr (be_value h, r))"

definition read_payload ::
  "nat \<Rightarrow> byte list \<Rightarrow> (byte list \<Rightarrow> pyvalue) \<Rightarrow> py_error + header \<times> byte list" where
  "read_payload n bs f =
     (case take_bytes n bs of
        Inl e \<Rightarrow> Inl e
      | Inr (payload, r) \<Rightarrow> Inr (Scalar (f payload), r))"

definition read_sized ::
  "nat \<Rightarrow> byte list \<Rightarrow> (byte list \<Rightarrow> pyvalue) \<Rightarrow> py_error + header \<times> byte list" where
  "read_sized k bs f =
     (case read_uint k bs of
        Inl e \<Rightarrow> Inl e
      | Inr (n, r) \<Rightarrow> read_payload n r f)"

definition read_number ::
  "nat \<Rightarrow> byte list \<Rightarrow> (nat \<Rightarrow> header) \<Rightarrow> py_error + header \<times> byte list" where
  "read_number k bs f =
     (case read_uint k bs of
        Inl e \<Rightarrow> Inl e
      | Inr (u, r) \<Rightarrow> Inr (f u, r))"

definition unpack_header :: "byte \<Rightarrow> byte list \<Rightarrow> py_error + header \<times> byte list" where
  "unpack_header tag rest =
     (let t = unat tag in
      if t < 0x80 then Inr (Scalar (PInt (int t)), rest)
      else if t < 0x90 then Inr (Pairs (t - 0x80), rest)
      else if t < 0xA0 then Inr (Elements (t - 0x90), rest)
      else if t < 0xC0 then read_payload (t - 0xA0) rest (\<lambda>p. PStr (decode_chars p))
      else if t = 0xC0 then Inr (Scalar PNone, rest)
      else if t = 0xC2 then Inr (Scalar (PBool False), rest)
      else if t = 0xC3 then Inr (Scalar (PBool True), rest)
      else if t = 0xC4 then read_sized 1 rest PBytes
      else if t = 0xC5 then read_sized 2 rest PBytes
      else if t = 0xC6 then read_sized 4 rest PBytes
      else if t = 0xCC then read_number 1 rest (\<lambda>u. Scalar (PInt (int u)))
      else if t = 0xCD then read_number 2 rest (\<lambda>u. Scalar (PInt (int u)))
      else if t = 0xCE then read_number 4 rest (\<lambda>u. Scalar (PInt (int u)))
      else if t = 0xCF then read_number 8 rest (\<lambda>u. Scalar (PInt (int u)))
      else if t = 0xD0 then read_number 1 rest (\<lambda>u. Scalar (PInt (signed_value 1 u)))
      else if t = 0xD1 then read_number 2 rest (\<lambda>u. Scalar (PInt (signed_value 2 u)))
      else if t = 0xD2 then read_number 4 rest (\<lambda>u. Scalar (PInt (signed_value 4 u)))
      else if t = 0xD3 then read_number 8 rest (\<lambda>u. Scalar (PInt (signed_value 8 u)))
      else if t = 0xD9 then read_sized 1 rest (\<lambda>p. PStr (decode_chars p))
      else if t = 0xDA then read_sized 2 rest (\<lambda>p. PStr (decode_chars p))
      else if t = 0xDB then read_sized 4 rest (\<lambda>p. PStr (decode_chars p))
      else if t = 0xDC then read_number 2 rest Elements
      else if t = 0xDD then read_number 4 rest Elements
      else if t = 0xDE then read_number 2 rest Pairs
      else if t = 0xDF then read_number 4 rest Pairs
      else if 0xE0 \<le> t then Inr (Scalar (PInt (int t - 256)), rest)
      else Inl DecodeError)"

function unpack :: "byte list \<Rightarrow> py_error + pyvalue \<times> byte list"
  and unpack_all :: "nat \<Rightarrow> byte list \<Rightarrow> py_error + pyvalue list \<times> byte list"
  and unpack_items :: "nat \<Rightarrow> byte list \<Rightarrow> py_error + (pyvalue \<times> pyvalue) list \<times> byte list" where
  "unpack [] = Inl DecodeError"
| "unpack (tag # rest) =
     (case unpack_header tag rest of
        Inl e \<Rightarrow> Inl e
      | Inr (Scalar v, r) \<Rightarrow> Inr (v, r)
      | Inr (Elements n, r) \<Rightarrow>
          (if length r \<le> length rest
           then (case unpack_all n r of
                   Inl e \<Rightarrow> Inl e
                 | Inr (xs, r') \<Rightarrow> Inr (PList xs, r'))
           else Inl DecodeError)
      | Inr (Pairs n, r) \<Rightarrow>
          (if length r \<le> length rest
           then (case unpack_items n r of
                   Inl e \<Rightarrow> Inl e
                 | Inr (kvs, r') \<Rightarrow> Inr (PDict kvs, r'))
           else Inl DecodeError))"
| "unpack_all 0 bs = Inr ([], bs)"
| "unpack_all (Suc n) bs =
     (case unpack bs of
        Inl e \<Rightarrow> Inl e
      | Inr (x, r) \<Rightarrow>
          (if length r < length bs
           then (case unpack_all n r of
                   Inl e \<Rightarrow> Inl e
                 | Inr (xs, r') \<Rightarrow> Inr (x # xs, r'))
           else Inl DecodeError))"
| "unpack_items 0 bs = Inr ([], bs)"
| "unpack_items (Suc n) bs =
     (case unpack bs of
        Inl e \<Rightarrow> Inl e
      | Inr (k, r1) \<Rightarrow>
          (if length r1 < length bs
           then (case unpack r1 of
                   Inl e \<Rightarrow> Inl e
                 | Inr (v, r2) \<Rightarrow>
                     (if length r2 < length r1
                      then (case unpack_items n r2 of
                              Inl e \<Rightarrow> Inl e
                            | Inr (kvs, r') \<Rightarrow> Inr ((k, v) # kvs, r'))
                      else Inl DecodeError))
           else Inl DecodeError))"
  by pat_completeness auto
termination
  by (relation "measure (case_sum (\<lambda>bs. 2 * length bs)
                   (case_sum (\<lambda>p. 2 * length (snd p) + 1) (\<lambda>p. 2 * length (snd p) + 1)))")
     auto

text \<open>The whole input must be one value.\<close>

definition unpackb :: "byte list \<Rightarrow> py_error + pyvalue" where
  "unpackb bs =
     (case unpack bs of
        Inl e \<Rightarrow> Inl e
      | Inr (v, rest) \<Rightarrow> (if rest = [] then Inr v else Inl DecodeError))"


section \<open>Media-type strings that differ in parameter order and letter case\<close>

text \<open>
  A media-type string written from its parts: the text before the first semicolon and
  the parameters in the order given, each as \<^verbatim>\<open>; name=value\<close>.
\<close>

definition media_type_string :: "string \<Rightarrow> (string \<times> string) list \<Rightarrow> string" where
  "media_type_string base params =
     base @ concat (map (\<lambda>p. ''; '' @ fst p @ ''='' @ snd p) params)"

text \<open>A parameter name holds no separator and no white space; a value holds no separator.\<close>

definition is_name :: "string \<Rightarrow> bool" where
  "is_name k = list_all (\<lambda>c. c \<noteq> CHR '';'' \<and> c \<noteq> CHR ''='' \<and> \<not> isspace c) k"

definition is_value :: "string \<Rightarrow> bool" where
  "is_value v = list_all (\<lambda>c. c \<noteq> CHR '';'' \<and> c \<noteq> CHR ''='') v"

definition well_formed_parameters :: "(string \<times> string) list \<Rightarrow> bool" where
  "well_formed_parameters params =
     (list_all (\<lambda>p. is_name (fst p) \<and> is_value (snd p)) params
      \<and> distinct (map (\<lambda>p. lower (fst p)) params))"

text \<open>
  Two parameter lists are the same up to order and letter case when they hold the same
  parameters once every name and value is lowercased.
\<close>

definition same_parameters :: "(string \<times> string) list \<Rightarrow> (string \<times> string) list \<Rightarrow> bool" where
  "same_parameters ps qs =
     (mset (map (\<lambda>p. (lower (fst p), lower (snd p))) ps)
        = mset (map (\<lambda>p. (lower (fst p), lower (snd p))) qs))"

text \<open>The registry key of a string: \<^verbatim>\<open>str(headers.parse_content_type(s))\<close>.\<close>

definition registry_key :: "string \<Rightarrow> py_error + string" where
  "registry_key s = map_sum id str_ContentType (parse_content_type s)"

text \<open>
  What the parser does with one parameter of such a string, named for the proofs:
  \<open>parameter_text\<close> is the text between two semicolons, \<open>rstrip\<close> removes trailing
  white space, \<open>stored_value\<close> is the value stored for a lowercased raw value, and
  \<open>stored_parameter\<close> is the dictionary entry of a lowercased parameter.
\<close>

definition rstrip :: "string \<Rightarrow> string" where
  "rstrip v = rev (dropWhile isspace (rev v))"

definition stored_value :: "string \<Rightarrow> py_error + string" where
  "stored_value w = dequote (strip (rstrip w))"

definition parameter_text :: "string \<times> string \<Rightarrow> string" where
  "parameter_text p = CHR '' '' # fst p @ CHR ''='' # snd p"

definition stored_parameter :: "string \<times> string \<Rightarrow> string \<times> string" where
  "stored_parameter n = (fst n, projr (stored_value (snd n)))"

definition lowered :: "string \<times> string \<Rightarrow> string \<times> string" where
  "lowered p = (lower (fst p), lower (snd p))"


section \<open>Evaluation of the parser on concrete strings\<close>

lemmas registry_eval_simps =
  add_transcoder_def get_settings_def install_def setitem_def getitem_def
  ContentSettings_init_def SETTINGS_KEY_def set_default_content_type_def
  available_content_types_def Let_def

lemmas negotiation_eval_simps =
  ietfparse_def spec_parse_accept_def spec_select_content_type_def candidates_def
  match_rank_def better_def parse_range_def parse_quality_def digit_value_def
  accept_header_value_def type_subtype_suffix_def

lemmas parse_eval_simps =
  parse_content_type_def str_ContentType_def new_ContentType_def parse_parameter_def
  strip_def isspace_def lower_def lower_char_def upper_chars_def lower_chars_def
  dequote_def set_parameter_def str_parameter_def

section \<open>The registry\<close>

text \<open>
  C2. When the normalized key of a content-type string already has a handler,
  \<^verbatim>\<open>__setitem__\<close> changes nothing: the settings object is returned as it was, so the
  availability list gains no entry, and a lookup still returns the handler registered
  first. When the key has no handler yet, the parsed type is appended to the availability
  list and the handler is stored under the key.
\<close>

theorem setitem_registered_key_noop:
  assumes "parse_content_type ct = Inr parsed"
  shows "(handlers self (str_ContentType parsed) = Some h0 \<longrightarrow>
            setitem self ct handler = (None, self) \<and>
            getitem (snd (setitem self ct handler)) ct = Inr h0)
       \<and> (handlers self (str_ContentType parsed) = None \<longrightarrow>
            setitem self ct handler =
              (None, self\<lparr> available_types := available_types self @ [parsed],
                            handlers := (handlers self)(str_ContentType parsed \<mapsto> handler) \<rparr>) \<and>
            getitem (snd (setitem self ct handler)) ct = Inr handler)"
  using assms by (auto simp: setitem_def getitem_def Let_def)

theorem setitem_registered_key_noop_witness:
  "parse_content_type ''application/json'' =
     Inr \<lparr>content_type = ''application'', content_subtype = ''json'',
          content_suffix = None, parameters = []\<rparr>
   \<and> handlers (snd (setitem ContentSettings_init ''application/json'' (11::nat)))
        ''application/json'' = Some 11
   \<and> setitem (snd (setitem ContentSettings_init ''application/json'' (11::nat)))
        ''application/json'' 22
      = (None, snd (setitem ContentSettings_init ''application/json'' 11))
   \<and> getitem (snd (setitem (snd (setitem ContentSettings_init ''application/json'' (11::nat)))
        ''application/json'' 22)) ''application/json'' = Inr 11
   \<and> available_types (snd (setitem (snd (setitem ContentSettings_init ''application/json'' (11::nat)))
        ''application/json'' 22))
      = [\<lparr>content_type = ''application'', content_subtype = ''json'',
          content_suffix = None, parameters = []\<rparr>]"
proof -
  let ?p = "\<lparr>content_type = ''application'', content_subtype = ''json'',
          content_suffix = None, parameters = []\<rparr>"
  have p: "parse_content_type ''application/json'' = Inr ?p"
    by (simp add: parse_eval_simps)
  have k: "str_ContentType ?p = ''application/json''"
    by (simp add: str_ContentType_def)
  have s: "setitem ContentSettings_init ''application/json'' (11::nat)
             = (None, \<lparr> handlers = [''application/json'' \<mapsto> 11], available_types = [?p],
                  default_content_type = None, default_encoding = None \<rparr>)"
    by (simp add: setitem_def p k ContentSettings_init_def)
  let ?s1 = "snd (setitem ContentSettings_init ''application/json'' (11::nat))"
  have h: "handlers ?s1 (str_ContentType ?p) = Some 11"
    by (simp add: s k)
  from setitem_registered_key_noop [OF p, of ?s1 11 22] h
  have a: "setitem ?s1 ''application/json'' 22 = (None, ?s1)"
    and b: "getitem (snd (setitem ?s1 ''application/json'' 22)) ''application/json'' = Inr 11"
    by blast+
  have c: "available_types (snd (setitem ?s1 ''application/json'' 22)) = [?p]"
    by (simp add: a) (simp add: s)
  from p h a b c show ?thesis
    by (simp only: k)
qed

text \<open>
  C10. When a settings object is already stored in the application, \<^verbatim>\<open>install\<close>
  returns it and changes neither the object nor the application, whatever default
  content type and encoding the call passes. When none is stored, the created object
  carries the arguments of the call and is stored under \<open>SETTINGS_KEY\<close>.
\<close>

theorem install_keeps_existing:
  "(settings app SETTINGS_KEY = Some s \<longrightarrow>
      install app dct encoding = (s, app))
   \<and> (settings app SETTINGS_KEY = None \<longrightarrow>
      default_content_type (fst (install app dct encoding)) = dct \<and>
      default_encoding (fst (install app dct encoding)) = encoding \<and>
      settings (snd (install app dct encoding)) SETTINGS_KEY
        = Some (fst (install app dct encoding)))"
  by (simp add: install_def Let_def)

theorem install_keeps_existing_witness:
  "settings (snd (install \<lparr>settings = Map.empty\<rparr> (Some ''application/json'') (Some ''utf8'')
                    :: nat ContentSettings \<times> nat Application)) SETTINGS_KEY
     = Some (ContentSettings_init\<lparr>default_content_type := Some ''application/json'',
                                   default_encoding := Some ''utf8''\<rparr>)
   \<and> install (snd (install \<lparr>settings = Map.empty\<rparr> (Some ''application/json'') (Some ''utf8'')
                    :: nat ContentSettings \<times> nat Application)) (Some ''text/xml'') None
     = (ContentSettings_init\<lparr>default_content_type := Some ''application/json'',
                               default_encoding := Some ''utf8''\<rparr>,
        snd (install \<lparr>settings = Map.empty\<rparr> (Some ''application/json'') (Some ''utf8'')))"
proof -
  let ?app = "snd (install \<lparr>settings = Map.empty\<rparr> (Some ''application/json'') (Some ''utf8'')
                    :: nat ContentSettings \<times> nat Application)"
  let ?s = "ContentSettings_init\<lparr>default_content_type := Some ''application/json'',
                                   default_encoding := Some ''utf8''\<rparr> :: nat ContentSettings"
  have h: "settings ?app SETTINGS_KEY = Some ?s"
    by (simp add: install_def Let_def)
  show ?thesis
    using h install_keeps_existing [of ?app ?s "Some ''text/xml''" None]
    by simp
qed

section \<open>Normalization of registry keys\<close>

lemma split_on_notin: "c \<notin> set a \<Longrightarrow> split_on c a = [a]"
  by (induction a) auto

lemma split_on_append: "c \<notin> set a \<Longrightarrow> split_on c (a @ c # r) = a # split_on c r"
  by (induction a) auto

lemma lower_char_cases: "lower_char c = c \<or> (c \<in> set upper_chars \<and> lower_char c \<in> set lower_chars)"
  unfolding lower_char_def upper_chars_def lower_chars_def
  by (simp split: option.splits)

lemma upper_not_space: "c \<in> set upper_chars \<Longrightarrow> \<not> isspace c"
  by (auto simp: upper_chars_def isspace_def)

lemma lower_not_space: "c \<in> set lower_chars \<Longrightarrow> \<not> isspace c"
  by (auto simp: lower_chars_def isspace_def)

lemma isspace_lower_char: "isspace (lower_char c) = isspace c"
  using lower_char_cases [of c] upper_not_space [of c] lower_not_space [of "lower_char c"]
  by metis

lemma lower_dropWhile_isspace: "lower (dropWhile isspace s) = dropWhile isspace (lower s)"
  by (simp add: lower_def dropWhile_map comp_def isspace_lower_char)

lemma lower_strip: "lower (strip s) = strip (lower s)"
proof -
  have "lower (strip s) = rev (lower (dropWhile isspace (rev (dropWhile isspace s))))"
    by (simp add: strip_def lower_def rev_map)
  also have "\<dots> = rev (dropWhile isspace (lower (rev (dropWhile isspace s))))"
    by (simp only: lower_dropWhile_isspace)
  also have "lower (rev (dropWhile isspace s)) = rev (lower (dropWhile isspace s))"
    by (simp add: lower_def rev_map)
  also have "lower (dropWhile isspace s) = dropWhile isspace (lower s)"
    by (rule lower_dropWhile_isspace)
  finally show ?thesis by (simp add: strip_def)
qed

lemma split_media_type_string:
  assumes "CHR '';'' \<notin> set base"
    and "list_all (\<lambda>p. is_name (fst p) \<and> is_value (snd p)) ps"
  shows "split_on CHR '';'' (media_type_string base ps)
           = base # map (\<lambda>p. '' '' @ fst p @ ''='' @ snd p) ps"
  using assms
proof (induction ps arbitrary: base)
  case Nil
  then show ?case by (simp add: media_type_string_def split_on_notin)
next
  case (Cons p ps)
  have np: "CHR '';'' \<notin> set ('' '' @ fst p @ ''='' @ snd p)"
    using Cons.prems(2) by (auto simp: is_name_def is_value_def list_all_iff)
  have "media_type_string base (p # ps)
          = base @ CHR '';'' # media_type_string ('' '' @ fst p @ ''='' @ snd p) ps"
    by (simp add: media_type_string_def)
  moreover have "split_on CHR '';'' (media_type_string ('' '' @ fst p @ ''='' @ snd p) ps)
          = ('' '' @ fst p @ ''='' @ snd p) # map (\<lambda>p. '' '' @ fst p @ ''='' @ snd p) ps"
    using Cons.IH [OF np] Cons.prems(2) by simp
  ultimately show ?case
    using Cons.prems(1) by (simp add: split_on_append)
qed

lemma dropWhile_append_stop:
  "\<not> P y \<Longrightarrow> dropWhile P (xs @ y # ys) = dropWhile P xs @ y # ys"
  by (induction xs) auto

lemma strip_name_value:
  assumes "is_name k"
  shows "strip (CHR '' '' # k @ CHR ''='' # v) = k @ CHR ''='' # rev (dropWhile isspace (rev v))"
proof -
  have sp: "isspace CHR '' ''" and eq: "\<not> isspace CHR ''=''"
    by (simp_all add: isspace_def)
  have "dropWhile isspace (k @ CHR ''='' # v) = k @ CHR ''='' # v"
    using assms eq by (cases k) (auto simp: is_name_def)
  then have a: "dropWhile isspace (CHR '' '' # k @ CHR ''='' # v) = k @ CHR ''='' # v"
    using sp by simp
  have b: "dropWhile isspace (rev v @ CHR ''='' # rev k) = dropWhile isspace (rev v) @ CHR ''='' # rev k"
    using eq by (rule dropWhile_append_stop)
  show ?thesis
    unfolding strip_def a by (simp add: b)
qed

lemma lower_rstrip: "lower (rstrip v) = rstrip (lower v)"
proof -
  have "lower (rstrip v) = rev (lower (dropWhile isspace (rev v)))"
    by (simp add: rstrip_def lower_def rev_map)
  also have "\<dots> = rev (dropWhile isspace (lower (rev v)))"
    by (simp only: lower_dropWhile_isspace)
  also have "lower (rev v) = rev (lower v)"
    by (simp add: lower_def rev_map)
  finally show ?thesis by (simp add: rstrip_def)
qed

lemma set_rstrip: "set (rstrip v) \<subseteq> set v"
  unfolding rstrip_def using set_dropWhileD [of _ isspace "rev v"] by auto

lemma parse_parameter_name_value:
  assumes "is_name k" and "is_value v"
  shows "parse_parameter (CHR '' '' # k @ CHR ''='' # v)
           = (case stored_value (lower v) of
                Inl e \<Rightarrow> Inl e
              | Inr v' \<Rightarrow> Inr (Some (k, v')))"
proof -
  have s: "strip (CHR '' '' # k @ CHR ''='' # v) = k @ CHR ''='' # rstrip v"
    using strip_name_value [OF assms(1)] by (simp add: rstrip_def)
  have nk: "CHR ''='' \<notin> set k"
    using assms(1) by (auto simp: is_name_def list_all_iff)
  have nv: "CHR ''='' \<notin> set (rstrip v)"
    using assms(2) set_rstrip [of v] by (auto simp: is_value_def list_all_iff)
  have sp: "split_on CHR ''='' (k @ CHR ''='' # rstrip v) = [k, rstrip v]"
    by (simp add: split_on_append [OF nk] split_on_notin [OF nv])
  show ?thesis
    unfolding parse_parameter_def s Let_def sp
    by (simp add: lower_rstrip stored_value_def)
qed

lemma stored_value_error: "stored_value w = Inl e \<Longrightarrow> e = ValueError"
  by (auto simp: stored_value_def dequote_def split: if_splits)

lemma parse_parameter_list_texts:
  assumes "list_all (\<lambda>p. is_name (fst p) \<and> is_value (snd p)) ps"
  shows "parse_parameter_list (map parameter_text ps)
           = (if list_all (\<lambda>n. \<not> isl (stored_value (snd n))) (map lowered ps)
              then Inr (map (\<lambda>p. (fst p, projr (stored_value (lower (snd p))))) ps)
              else Inl ValueError)"
  using assms
proof (induction ps)
  case Nil
  then show ?case by simp
next
  case (Cons p ps)
  then have n: "is_name (fst p)" and v: "is_value (snd p)"
    and rest: "list_all (\<lambda>p. is_name (fst p) \<and> is_value (snd p)) ps"
    by simp_all
  show ?case
  proof (cases "stored_value (lower (snd p))")
    case (Inl e)
    then have "e = ValueError" by (rule stored_value_error)
    with Inl show ?thesis
      by (simp add: parameter_text_def parse_parameter_name_value [OF n v] lowered_def)
  next
    case (Inr w)
    then show ?thesis
      using Cons.IH [OF rest]
      by (simp add: parameter_text_def parse_parameter_name_value [OF n v] lowered_def)
  qed
qed

lemma update_fresh: "k \<notin> fst ` set d \<Longrightarrow> AList.update k v d = d @ [(k, v)]"
  by (induction d) auto

lemma foldl_set_parameter:
  "distinct (map fst acc @ map (\<lambda>p. lower (fst p)) xs) \<Longrightarrow>
     foldl set_parameter acc xs = acc @ map (\<lambda>p. (lower (fst p), snd p)) xs"
proof (induction xs arbitrary: acc)
  case Nil
  then show ?case by simp
next
  case (Cons x xs)
  have fresh: "lower (fst x) \<notin> fst ` set acc"
    using Cons.prems by auto
  have "distinct (map fst (acc @ [(lower (fst x), snd x)]) @ map (\<lambda>p. lower (fst p)) xs)"
    using Cons.prems by auto
  from Cons.IH [OF this] show ?case
    by (simp add: set_parameter_def update_fresh [OF fresh])
qed


lemma parse_media_type_string:
  assumes "CHR '';'' \<notin> set base" and "well_formed_parameters ps"
  shows "parse_content_type (media_type_string base ps)
           = (case parse_content_type base of
                Inl e \<Rightarrow> Inl e
              | Inr c \<Rightarrow>
                  if list_all (\<lambda>n. \<not> isl (stored_value (snd n))) (map lowered ps)
                  then Inr (c\<lparr> parameters := map stored_parameter (map lowered ps) \<rparr>)
                  else Inl ValueError)"
proof -
  have wf: "list_all (\<lambda>p. is_name (fst p) \<and> is_value (snd p)) ps"
    and d: "distinct (map (\<lambda>p. lower (fst p)) ps)"
    using assms(2) by (simp_all add: well_formed_parameters_def)
  have sp: "split_on CHR '';'' (media_type_string base ps) = base # map parameter_text ps"
    using split_media_type_string [OF assms(1) wf] by (simp add: parameter_text_def)
  have sb: "split_on CHR '';'' base = [base]"
    using assms(1) by (rule split_on_notin)
  have dd: "distinct (map (\<lambda>p. lower (fst p))
                        (map (\<lambda>p. (fst p, projr (stored_value (lower (snd p))))) ps))"
    using d by (simp add: comp_def)
  have f: "foldl set_parameter [] (map (\<lambda>p. (fst p, projr (stored_value (lower (snd p))))) ps)
             = map stored_parameter (map lowered ps)"
    using foldl_set_parameter [of "[]", simplified, OF dd]
    by (simp add: stored_parameter_def lowered_def comp_def)
  show ?thesis
    unfolding parse_content_type_def sp sb
    by (simp add: parse_parameter_list_texts [OF wf] new_ContentType_def f
             split: list.splits sum.splits)
qed

lemma str_ContentType_parameters_cong:
  assumes "distinct (map fst d1)" and "mset d1 = mset d2"
  shows "str_ContentType (c\<lparr> parameters := d1 \<rparr>) = str_ContentType (c\<lparr> parameters := d2 \<rparr>)"
proof -
  have k: "mset (map fst d1) = mset (map fst d2)"
    using assms(2) by (metis mset_map)
  then have d2: "distinct (map fst d2)"
    using assms(1) by (metis mset_eq_imp_distinct_iff)
  have "set d1 = set d2"
    using assms(2) by (rule mset_eq_setD)
  then have m: "map_of d1 = map_of d2"
    using assms(1) d2 by (simp add: map_of_inject_set)
  have srt: "sort (map fst d1) = sort (map fst d2)"
    using k by (metis properties_for_sort sorted_sort mset_sort)
  have e: "(d1 = []) = (d2 = [])"
    using assms(2) by (metis mset_zero_iff)
  have sp: "str_parameter d1 = str_parameter d2"
    by (rule ext) (simp add: str_parameter_def m)
  show ?thesis
    by (simp add: str_ContentType_def srt e sp)
qed

lemma registry_key_media_type_string:
  assumes "CHR '';'' \<notin> set base"
    and "well_formed_parameters ps" and "well_formed_parameters qs"
    and "same_parameters ps qs"
  shows "registry_key (media_type_string base ps) = registry_key (media_type_string base qs)"
proof -
  have "lowered = (\<lambda>p. (lower (fst p), lower (snd p)))"
    by (rule ext) (simp add: lowered_def)
  then have ms: "mset (map lowered ps) = mset (map lowered qs)"
    using assms(4) by (simp add: same_parameters_def)
  then have st: "set (map lowered ps) = set (map lowered qs)"
    by (rule mset_eq_setD)
  have ok: "list_all (\<lambda>n. \<not> isl (stored_value (snd n))) (map lowered ps)
          = list_all (\<lambda>n. \<not> isl (stored_value (snd n))) (map lowered qs)"
    unfolding list_all_iff st ..
  have d: "distinct (map fst (map stored_parameter (map lowered ps)))"
    using assms(2)
    by (simp add: well_formed_parameters_def stored_parameter_def lowered_def comp_def)
  have m: "mset (map stored_parameter (map lowered ps)) = mset (map stored_parameter (map lowered qs))"
    using ms by (metis mset_map)
  show ?thesis
    unfolding registry_key_def
      parse_media_type_string [OF assms(1) assms(2)]
      parse_media_type_string [OF assms(1) assms(3)] ok
    using str_ContentType_parameters_cong [OF d m]
    by (simp split: sum.splits)
qed

text \<open>
  C1, as amended. Two media-type strings with the same text before the first semicolon,
  whose parameter names are plain tokens that are pairwise distinct once lowercased, and
  whose parameters are the same up to their order and the letter case of names (and of
  values, which the parser lowercases too), have the same registry key. So in any
  registry a lookup under one string returns what a lookup under the other returns,
  and after a registration under the first string a lookup under the second returns the
  handler stored under the common key: the registered handler when the key was free.
  When a name occurs twice the last value wins, and the order matters.
\<close>

theorem normalized_registry_key:
  assumes "CHR '';'' \<notin> set base"
    and "well_formed_parameters ps" and "well_formed_parameters qs"
    and "same_parameters ps qs"
  shows "registry_key (media_type_string base ps) = registry_key (media_type_string base qs)
       \<and> getitem (snd (setitem self (media_type_string base ps) handler))
                  (media_type_string base qs)
           = getitem (snd (setitem self (media_type_string base ps) handler))
                  (media_type_string base ps)
       \<and> (\<forall>key. registry_key (media_type_string base ps) = Inr key \<longrightarrow>
             getitem (snd (setitem self (media_type_string base ps) handler))
                  (media_type_string base qs)
               = Inr (case handlers self key of None \<Rightarrow> handler | Some h0 \<Rightarrow> h0))"
proof -
  let ?s1 = "media_type_string base ps" and ?s2 = "media_type_string base qs"
  have k: "registry_key ?s1 = registry_key ?s2"
    using assms by (rule registry_key_media_type_string)
  have g: "getitem st ?s2 = getitem st ?s1" for st :: "'a ContentSettings"
  proof -
    have "getitem st s = (case registry_key s of Inl e \<Rightarrow> Inl e
                           | Inr key \<Rightarrow> (case handlers st key of None \<Rightarrow> Inl KeyError | Some h \<Rightarrow> Inr h))" for s
      by (simp add: getitem_def registry_key_def split: sum.splits)
    then show ?thesis by (simp add: k)
  qed
  have r: "getitem (snd (setitem self ?s1 handler)) ?s1
             = Inr (case handlers self key of None \<Rightarrow> handler | Some h0 \<Rightarrow> h0)"
    if "registry_key ?s1 = Inr key" for key
    using that
    by (auto simp: registry_key_def getitem_def setitem_def Let_def split: sum.splits option.splits)
  show ?thesis
    using k g r by simp
qed

theorem normalized_registry_key_witness:
  "CHR '';'' \<notin> set ''application/json''
   \<and> well_formed_parameters [(''VerSion'', ''foo''), (''type'', ''WhatEver'')]
   \<and> well_formed_parameters [(''type'', ''whatever''), (''version'', ''foo'')]
   \<and> same_parameters [(''VerSion'', ''foo''), (''type'', ''WhatEver'')]
                      [(''type'', ''whatever''), (''version'', ''foo'')]
   \<and> media_type_string ''application/json'' [(''VerSion'', ''foo''), (''type'', ''WhatEver'')]
        = ''application/json; VerSion=foo; type=WhatEver''
   \<and> media_type_string ''application/json'' [(''type'', ''whatever''), (''version'', ''foo'')]
        = ''application/json; type=whatever; version=foo''
   \<and> registry_key ''application/json; VerSion=foo; type=WhatEver''
        = Inr ''application/json; type=whatever; version=foo''
   \<and> getitem (snd (setitem ContentSettings_init
                      ''application/json; VerSion=foo; type=WhatEver'' (11::nat)))
         ''application/json; type=whatever; version=foo'' = Inr 11"
proof -
  let ?ps = "[(''VerSion'', ''foo''), (''type'', ''WhatEver'')]"
  let ?qs = "[(''type'', ''whatever''), (''version'', ''foo'')]"
  have b: "CHR '';'' \<notin> set ''application/json''" by simp
  have w1: "well_formed_parameters ?ps"
    by (simp add: well_formed_parameters_def is_name_def is_value_def isspace_def
          lower_def lower_char_def upper_chars_def lower_chars_def)
  have w2: "well_formed_parameters ?qs"
    by (simp add: well_formed_parameters_def is_name_def is_value_def isspace_def
          lower_def lower_char_def upper_chars_def lower_chars_def)
  have sm: "same_parameters ?ps ?qs"
    by (simp add: same_parameters_def lower_def lower_char_def upper_chars_def lower_chars_def)
  have m1: "media_type_string ''application/json'' ?ps = ''application/json; VerSion=foo; type=WhatEver''"
    by (simp add: media_type_string_def)
  have m2: "media_type_string ''application/json'' ?qs = ''application/json; type=whatever; version=foo''"
    by (simp add: media_type_string_def)
  have k: "registry_key ''application/json; VerSion=foo; type=WhatEver''
             = Inr ''application/json; type=whatever; version=foo''"
    by (simp add: registry_key_def parse_eval_simps)
  have h: "handlers (ContentSettings_init :: nat ContentSettings)
             ''application/json; type=whatever; version=foo'' = None"
    by (simp add: ContentSettings_init_def)
  note t = normalized_registry_key [OF b w1 w2 sm,
      of "ContentSettings_init :: nat ContentSettings" 11, unfolded m1 m2]
  from t have "\<forall>key. registry_key ''application/json; VerSion=foo; type=WhatEver'' = Inr key \<longrightarrow>
      getitem (snd (setitem ContentSettings_init
                      ''application/json; VerSion=foo; type=WhatEver'' (11::nat)))
         ''application/json; type=whatever; version=foo''
        = Inr (case handlers (ContentSettings_init :: nat ContentSettings) key of
                 None \<Rightarrow> 11 | Some h0 \<Rightarrow> h0)"
    by blast
  with k have "getitem (snd (setitem ContentSettings_init
                      ''application/json; VerSion=foo; type=WhatEver'' (11::nat)))
         ''application/json; type=whatever; version=foo''
        = Inr (case handlers (ContentSettings_init :: nat ContentSettings)
                      ''application/json; type=whatever; version=foo'' of
                 None \<Rightarrow> 11 | Some h0 \<Rightarrow> h0)"
    by blast
  then have "getitem (snd (setitem ContentSettings_init
                      ''application/json; VerSion=foo; type=WhatEver'' (11::nat)))
         ''application/json; type=whatever; version=foo'' = Inr 11"
    by (simp only: h option.case)
  with b w1 w2 sm m1 m2 k show ?thesis by blast
qed

theorem normalized_registry_key_counterexample:
  "same_parameters [(''x'', ''1''), (''x'', ''2'')] [(''x'', ''2''), (''x'', ''1'')]
   \<and> media_type_string ''a/b'' [(''x'', ''1''), (''x'', ''2'')] = ''a/b; x=1; x=2''
   \<and> media_type_string ''a/b'' [(''x'', ''2''), (''x'', ''1'')] = ''a/b; x=2; x=1''
   \<and> registry_key ''a/b; x=1; x=2'' = Inr ''a/b; x=2''
   \<and> registry_key ''a/b; x=2; x=1'' = Inr ''a/b; x=1''
   \<and> fst (setitem ContentSettings_init ''a/b; x=1; x=2'' (11::nat)) = None
   \<and> getitem (snd (setitem ContentSettings_init ''a/b; x=1; x=2'' (11::nat))) ''a/b; x=2; x=1''
       = Inl KeyError"
proof -
  have a: "same_parameters [(''x'', ''1''), (''x'', ''2'')] [(''x'', ''2''), (''x'', ''1'')]"
    by (simp add: same_parameters_def lower_def lower_char_def upper_chars_def lower_chars_def)
  have b: "media_type_string ''a/b'' [(''x'', ''1''), (''x'', ''2'')] = ''a/b; x=1; x=2''"
    "media_type_string ''a/b'' [(''x'', ''2''), (''x'', ''1'')] = ''a/b; x=2; x=1''"
    by (simp_all add: media_type_string_def)
  have p1: "parse_content_type ''a/b; x=1; x=2''
              = Inr \<lparr>content_type = ''a'', content_subtype = ''b'', content_suffix = None,
                     parameters = [(''x'', ''2'')]\<rparr>"
    by (simp add: parse_eval_simps)
  have p2: "parse_content_type ''a/b; x=2; x=1''
              = Inr \<lparr>content_type = ''a'', content_subtype = ''b'', content_suffix = None,
                     parameters = [(''x'', ''1'')]\<rparr>"
    by (simp add: parse_eval_simps)
  have k1: "registry_key ''a/b; x=1; x=2'' = Inr ''a/b; x=2''"
    by (simp add: registry_key_def p1) (simp add: str_ContentType_def str_parameter_def)
  have k2: "registry_key ''a/b; x=2; x=1'' = Inr ''a/b; x=1''"
    by (simp add: registry_key_def p2) (simp add: str_ContentType_def str_parameter_def)
  have s: "setitem ContentSettings_init ''a/b; x=1; x=2'' (11::nat)
             = (None, \<lparr> handlers = [''a/b; x=2'' \<mapsto> 11],
                  available_types = [\<lparr>content_type = ''a'', content_subtype = ''b'',
                     content_suffix = None, parameters = [(''x'', ''2'')]\<rparr>],
                  default_content_type = None, default_encoding = None \<rparr>)"
    using k1 by (simp add: setitem_def registry_key_def p1 ContentSettings_init_def)
  have g: "getitem (snd (setitem ContentSettings_init ''a/b; x=1; x=2'' (11::nat)))
             ''a/b; x=2; x=1'' = Inl KeyError"
    unfolding s using k2 by (simp add: getitem_def registry_key_def p2)
  have f: "fst (setitem ContentSettings_init ''a/b; x=1; x=2'' (11::nat)) = None"
    unfolding s by simp
  from a b k1 k2 f g show ?thesis by blast
qed

section \<open>Memoization in the mix-in\<close>

lemma json_only_application_eq:
  "json_only_application =
     \<lparr> settings = [SETTINGS_KEY \<mapsto>
         \<lparr> handlers = [''application/json'' \<mapsto> FakeContentHandler],
           available_types = [\<lparr>content_type = ''application'', content_subtype = ''json'',
                               content_suffix = None, parameters = []\<rparr>],
           default_content_type = None, default_encoding = None \<rparr>] \<rparr>"
  by (simp add: json_only_application_def registry_eval_simps parse_eval_simps)

lemma octet_application_eq:
  "octet_application =
     \<lparr> settings = [SETTINGS_KEY \<mapsto>
         \<lparr> handlers = [''application/octet-stream'' \<mapsto> octet_transcoder],
           available_types = [\<lparr>content_type = ''application'', content_subtype = ''octet-stream'',
                               content_suffix = None, parameters = []\<rparr>],
           default_content_type = None, default_encoding = None \<rparr>] \<rparr>"
  by (simp add: octet_application_def registry_eval_simps parse_eval_simps)
     (simp add: octet_transcoder_def BinaryContentHandler_def registry_eval_simps parse_eval_simps)

lemma msgpack_only_application_eq:
  "msgpack_only_application =
     \<lparr> settings = [SETTINGS_KEY \<mapsto>
         \<lparr> handlers = [''application/msgpack'' \<mapsto> FakeContentHandler],
           available_types = [\<lparr>content_type = ''application'', content_subtype = ''msgpack'',
                               content_suffix = None, parameters = []\<rparr>],
           default_content_type = Some ''application/json'', default_encoding = Some ''utf-8'' \<rparr>] \<rparr>"
  by (simp add: msgpack_only_application_def registry_eval_simps parse_eval_simps)

lemma versioned_json_application_eq:
  "versioned_json_application =
     \<lparr> settings = [SETTINGS_KEY \<mapsto>
         \<lparr> handlers = [''application/json; version=1'' \<mapsto> FakeContentHandler],
           available_types = [\<lparr>content_type = ''application'', content_subtype = ''json'',
                               content_suffix = None, parameters = [(''version'', ''1'')]\<rparr>],
           default_content_type = None, default_encoding = None \<rparr>] \<rparr>"
  by (simp add: versioned_json_application_def registry_eval_simps parse_eval_simps)

lemmas handler_eval_simps =
  get_response_content_type_def get_request_body_def send_response_def
  fresh_handler_def initialize_def set_header_def add_header_def write_chunk_def

text \<open>
  C3, as amended. Once \<^verbatim>\<open>get_response_content_type\<close> has returned a content type,
  every later call on that handler returns the same value and leaves the handler as it
  is, whatever the request, the application and the negotiation functions are by then:
  nothing is negotiated again. A call that returns \<^verbatim>\<open>None\<close> leaves the cache field
  at \<^verbatim>\<open>None\<close>, so the next call negotiates again.
\<close>

theorem response_content_type_memoized:
  "(\<forall>m. fst (get_response_content_type lib self) = Inr (Some m) \<longrightarrow>
        (\<forall>lib' req app.
            get_response_content_type lib'
                ((snd (get_response_content_type lib self))\<lparr> request := req, application := app \<rparr>)
              = (Inr (Some m),
                 (snd (get_response_content_type lib self))\<lparr> request := req, application := app \<rparr>)))
   \<and> (fst (get_response_content_type lib self) = Inr None \<longrightarrow>
        best_response_match (snd (get_response_content_type lib self)) = None)"
  by (auto simp: get_response_content_type_def Let_def
           split: option.splits sum.splits prod.splits if_splits)

theorem response_content_type_counterexample:
  "fst (get_response_content_type ietfparse
          (fresh_handler json_only_application [(''Accept'', ''application/xml'')] [])) = Inr None
   \<and> fst (get_response_content_type ietfparse
          ((snd (get_response_content_type ietfparse
                   (fresh_handler json_only_application [(''Accept'', ''application/xml'')] [])))
             \<lparr> request := \<lparr> headers = [''Accept'' \<mapsto> ''application/json''], body = [] \<rparr> \<rparr>))
       = Inr (Some ''application/json'')"
proof -
  have first: "get_response_content_type ietfparse
          (fresh_handler json_only_application [(''Accept'', ''application/xml'')] [])
     = (Inr None, fresh_handler json_only_application [(''Accept'', ''application/xml'')] [])"
    by (simp add: json_only_application_eq handler_eval_simps
          registry_eval_simps negotiation_eval_simps parse_eval_simps)
  have second: "fst (get_response_content_type ietfparse
          ((fresh_handler json_only_application [(''Accept'', ''application/xml'')] [])
             \<lparr> request := \<lparr> headers = [''Accept'' \<mapsto> ''application/json''], body = [] \<rparr> \<rparr>))
       = Inr (Some ''application/json'')"
    by (simp add: json_only_application_eq handler_eval_simps
          registry_eval_simps negotiation_eval_simps parse_eval_simps)
  show ?thesis
    by (simp only: first fst_conv snd_conv second)
qed

theorem response_content_type_memoized_witness:
  "fst (get_response_content_type ietfparse
          (fresh_handler msgpack_only_application [(''Accept'', ''application/msgpack'')] []))
     = Inr (Some ''application/msgpack'')
   \<and> get_response_content_type ietfparse
          ((snd (get_response_content_type ietfparse
                   (fresh_handler msgpack_only_application [(''Accept'', ''application/msgpack'')] [])))
             \<lparr> request := \<lparr> headers = Map.empty, body = [] \<rparr>,
               application := msgpack_only_application \<rparr>)
       = (Inr (Some ''application/msgpack''),
          (snd (get_response_content_type ietfparse
                   (fresh_handler msgpack_only_application [(''Accept'', ''application/msgpack'')] [])))
             \<lparr> request := \<lparr> headers = Map.empty, body = [] \<rparr>,
               application := msgpack_only_application \<rparr>)"
proof -
  let ?h = "fresh_handler msgpack_only_application [(''Accept'', ''application/msgpack'')] []"
  have a: "fst (get_response_content_type ietfparse ?h) = Inr (Some ''application/msgpack'')"
    by (simp add: msgpack_only_application_eq handler_eval_simps
          registry_eval_simps negotiation_eval_simps parse_eval_simps)
  from response_content_type_memoized [of ietfparse ?h] a
  have "\<forall>(lib' :: media_range list negotiation) req app.
            get_response_content_type lib'
                ((snd (get_response_content_type ietfparse ?h))\<lparr> request := req, application := app \<rparr>)
              = (Inr (Some ''application/msgpack''),
                 (snd (get_response_content_type ietfparse ?h))\<lparr> request := req, application := app \<rparr>)"
    by blast
  then have "get_response_content_type ietfparse
                ((snd (get_response_content_type ietfparse ?h))
                   \<lparr> request := \<lparr> headers = Map.empty, body = [] \<rparr>,
                     application := msgpack_only_application \<rparr>)
              = (Inr (Some ''application/msgpack''),
                 (snd (get_response_content_type ietfparse ?h))
                   \<lparr> request := \<lparr> headers = Map.empty, body = [] \<rparr>,
                     application := msgpack_only_application \<rparr>)"
    by blast
  with a show ?thesis by blast
qed

text \<open>
  C4, as amended. Once \<^verbatim>\<open>get_request_body\<close> has returned a value other than
  \<^verbatim>\<open>None\<close>, every later call on that handler returns the same value and leaves the
  handler as it is, whatever the request and the application are by then: nothing is
  decoded again. A call that returns \<^verbatim>\<open>None\<close> leaves the cache field at
  \<^verbatim>\<open>None\<close>, so the next call decodes again.
\<close>

theorem request_body_memoized:
  "(\<forall>v. fst (get_request_body self) = Inr v \<and> v \<noteq> PNone \<longrightarrow>
        (\<forall>req app.
            get_request_body ((snd (get_request_body self))\<lparr> request := req, application := app \<rparr>)
              = (Inr v, (snd (get_request_body self))\<lparr> request := req, application := app \<rparr>)))
   \<and> (fst (get_request_body self) = Inr PNone \<longrightarrow>
        request_body (snd (get_request_body self)) = PNone)"
  by (auto simp: get_request_body_def Let_def
           split: option.splits sum.splits prod.splits if_splits)

theorem request_body_memoized_witness:
  "fst (get_request_body
          (fresh_handler octet_application [(''Content-Type'', ''application/octet-stream'')] [1, 2]))
     = Inr (PBytes [1, 2])
   \<and> get_request_body
          ((snd (get_request_body
                   (fresh_handler octet_application
                      [(''Content-Type'', ''application/octet-stream'')] [1, 2])))
             \<lparr> request := \<lparr> headers = [''Content-Type'' \<mapsto> ''application/json''], body = [1, 2] \<rparr>,
               application := octet_application \<rparr>)
       = (Inr (PBytes [1, 2]),
          (snd (get_request_body
                   (fresh_handler octet_application
                      [(''Content-Type'', ''application/octet-stream'')] [1, 2])))
             \<lparr> request := \<lparr> headers = [''Content-Type'' \<mapsto> ''application/json''], body = [1, 2] \<rparr>,
               application := octet_application \<rparr>)"
proof -
  let ?h = "fresh_handler octet_application [(''Content-Type'', ''application/octet-stream'')] [1, 2]"
  have a: "fst (get_request_body ?h) = Inr (PBytes [1, 2])"
    by (simp add: octet_application_eq handler_eval_simps
          registry_eval_simps negotiation_eval_simps parse_eval_simps)
       (simp add: octet_transcoder_def BinaryContentHandler_def unpack_octets_def)
  have b: "PBytes [1, 2] \<noteq> PNone" by simp
  from request_body_memoized [of ?h] a b
  have "\<forall>req app.
            get_request_body ((snd (get_request_body ?h))\<lparr> request := req, application := app \<rparr>)
              = (Inr (PBytes [1, 2]), (snd (get_request_body ?h))\<lparr> request := req, application := app \<rparr>)"
    by blast
  then have "get_request_body
          ((snd (get_request_body ?h))
             \<lparr> request := \<lparr> headers = [''Content-Type'' \<mapsto> ''application/json''], body = [1, 2] \<rparr>,
               application := octet_application \<rparr>)
       = (Inr (PBytes [1, 2]),
          (snd (get_request_body ?h))
             \<lparr> request := \<lparr> headers = [''Content-Type'' \<mapsto> ''application/json''], body = [1, 2] \<rparr>,
               application := octet_application \<rparr>)"
    by blast
  with a show ?thesis by blast
qed

theorem request_body_counterexample:
  "fst (get_request_body
          (fresh_handler json_only_application [(''Content-Type'', ''application/json'')] []))
     = Inr PNone
   \<and> fst (get_request_body
          ((snd (get_request_body
                   (fresh_handler json_only_application [(''Content-Type'', ''application/json'')] [])))
             \<lparr> request := \<lparr> headers = [''Content-Type'' \<mapsto> ''application/xml''], body = [] \<rparr> \<rparr>))
       = Inl (HTTPError 415)"
proof -
  let ?h = "fresh_handler json_only_application [(''Content-Type'', ''application/json'')] []"
  have first: "get_request_body ?h = (Inr PNone, ?h)"
    by (simp add: json_only_application_eq handler_eval_simps
          registry_eval_simps negotiation_eval_simps parse_eval_simps)
       (simp add: FakeContentHandler_def)
  have second: "fst (get_request_body
          (?h\<lparr> request := \<lparr> headers = [''Content-Type'' \<mapsto> ''application/xml''], body = [] \<rparr> \<rparr>))
       = Inl (HTTPError 415)"
    by (simp add: json_only_application_eq handler_eval_simps
          registry_eval_simps negotiation_eval_simps parse_eval_simps)
  show ?thesis
    by (simp only: first fst_conv snd_conv second)
qed

text \<open>
  C5, as amended. For a request without an \<^verbatim>\<open>Accept\<close> header,
  \<^verbatim>\<open>get_response_content_type\<close> returns what it returns for the same request with
  the header set to the default content type, when one is set and not empty, and to
  \<^verbatim>\<open>*/*\<close> otherwise.
\<close>

theorem absent_accept_header:
  assumes "headers (request self) ''Accept'' = None"
    and "get_settings (application self) True = (Some s, app')"
  shows "fst (get_response_content_type lib self)
           = fst (get_response_content_type lib
                    (self\<lparr> request := (request self)\<lparr> headers := (headers (request self))
                       (''Accept'' \<mapsto> (case default_content_type s of
                                           None \<Rightarrow> ''*/*''
                                         | Some d \<Rightarrow> (if d \<noteq> [] then d else ''*/*''))) \<rparr> \<rparr>))
       \<and> (default_content_type s = None \<longrightarrow>
            fst (get_response_content_type lib self)
              = fst (get_response_content_type lib
                    (self\<lparr> request := (request self)\<lparr> headers := (headers (request self))
                       (''Accept'' \<mapsto> ''*/*'') \<rparr> \<rparr>)))"
  using assms
  by (auto simp: get_response_content_type_def accept_header_value_def Let_def
           split: option.splits sum.splits prod.splits if_splits)

theorem absent_accept_header_witness:
  "headers (request (fresh_handler json_only_application [] [])) ''Accept'' = None
   \<and> fst (get_settings (application (fresh_handler json_only_application [] [])) True)
       = Some \<lparr> handlers = [''application/json'' \<mapsto> FakeContentHandler],
                available_types = [\<lparr>content_type = ''application'', content_subtype = ''json'',
                                    content_suffix = None, parameters = []\<rparr>],
                default_content_type = None, default_encoding = None \<rparr>
   \<and> fst (get_response_content_type ietfparse (fresh_handler json_only_application [] []))
       = fst (get_response_content_type ietfparse
                (fresh_handler json_only_application [(''Accept'', ''*/*'')] []))
   \<and> fst (get_response_content_type ietfparse (fresh_handler json_only_application [] []))
       = Inr (Some ''application/json'')"
proof -
  let ?h = "fresh_handler json_only_application [] []"
  let ?s = "\<lparr> handlers = [''application/json'' \<mapsto> FakeContentHandler],
                available_types = [\<lparr>content_type = ''application'', content_subtype = ''json'',
                                    content_suffix = None, parameters = []\<rparr>],
                default_content_type = None, default_encoding = None \<rparr>"
  have a: "headers (request ?h) ''Accept'' = None"
    by (simp add: fresh_handler_def initialize_def)
  have b: "get_settings (application ?h) True = (Some ?s, json_only_application)"
    by (simp add: fresh_handler_def initialize_def json_only_application_eq get_settings_def)
  have c: "?h\<lparr> request := (request ?h)\<lparr> headers := (headers (request ?h))(''Accept'' \<mapsto> ''*/*'') \<rparr> \<rparr>
             = fresh_handler json_only_application [(''Accept'', ''*/*'')] []"
    by (simp add: fresh_handler_def initialize_def)
  have d: "fst (get_response_content_type ietfparse
                  (fresh_handler json_only_application [(''Accept'', ''*/*'')] []))
             = Inr (Some ''application/json'')"
    by (simp add: json_only_application_eq handler_eval_simps
          registry_eval_simps negotiation_eval_simps parse_eval_simps)
  from absent_accept_header [OF a b, of ietfparse]
  have e: "fst (get_response_content_type ietfparse ?h)
           = fst (get_response_content_type ietfparse
                (fresh_handler json_only_application [(''Accept'', ''*/*'')] []))"
    by (simp add: c)
  from a b e d show ?thesis by simp
qed

theorem absent_accept_header_counterexample:
  "accept_header_value
       \<lparr> handlers = [''application/msgpack'' \<mapsto> FakeContentHandler],
         available_types = [\<lparr>content_type = ''application'', content_subtype = ''msgpack'',
                             content_suffix = None, parameters = []\<rparr>],
         default_content_type = Some ''application/json'', default_encoding = Some ''utf-8'' \<rparr>
       \<lparr> headers = Map.empty, body = [] \<rparr> = ''application/json''
   \<and> fst (get_response_content_type ietfparse (fresh_handler msgpack_only_application [] []))
       = Inr (Some ''application/json'')
   \<and> fst (get_response_content_type ietfparse
             (fresh_handler msgpack_only_application [(''Accept'', ''*/*'')] []))
       = Inr (Some ''application/msgpack'')"
proof -
  have a: "accept_header_value
       \<lparr> handlers = [''application/msgpack'' \<mapsto> FakeContentHandler],
         available_types = [\<lparr>content_type = ''application'', content_subtype = ''msgpack'',
                             content_suffix = None, parameters = []\<rparr>],
         default_content_type = Some ''application/json'', default_encoding = Some ''utf-8'' \<rparr>
       \<lparr> headers = Map.empty, body = [] \<rparr> = ''application/json''"
    by (simp add: accept_header_value_def)
  have b: "fst (get_response_content_type ietfparse (fresh_handler msgpack_only_application [] []))
       = Inr (Some ''application/json'')"
    by (simp add: msgpack_only_application_eq handler_eval_simps
          registry_eval_simps negotiation_eval_simps parse_eval_simps)
  have c: "fst (get_response_content_type ietfparse
             (fresh_handler msgpack_only_application [(''Accept'', ''*/*'')] []))
       = Inr (Some ''application/msgpack'')"
    by (simp add: msgpack_only_application_eq handler_eval_simps
          registry_eval_simps negotiation_eval_simps parse_eval_simps)
  from a b c show ?thesis by simp
qed

section \<open>Errors of the mix-in\<close>

lemma dequote_error: "dequote v = Inl e \<Longrightarrow> e = ValueError"
  by (auto simp: dequote_def split: if_splits)

lemma parse_parameter_error: "parse_parameter p = Inl e \<Longrightarrow> e = ValueError"
  by (auto simp: parse_parameter_def Let_def dest: dequote_error
           split: if_splits list.splits sum.splits)

lemma parse_parameter_list_error: "parse_parameter_list ps = Inl e \<Longrightarrow> e = ValueError"
  by (induction ps arbitrary: e)
     (auto dest: parse_parameter_error split: sum.splits)

lemma parse_content_type_error: "parse_content_type s = Inl e \<Longrightarrow> e = ValueError"
  by (auto simp: parse_content_type_def dest: parse_parameter_list_error
           split: list.splits sum.splits if_splits)

lemma getitem_error: "getitem s k = Inl e \<Longrightarrow> e = ValueError \<or> e = KeyError"
  by (auto simp: getitem_def dest: parse_content_type_error split: sum.splits option.splits)

lemma get_request_body_uncached:
  assumes "request_body self = PNone"
    and "get_settings (application self) True = (Some s, app')"
    and "(case headers (request self) ''Content-Type'' of
            Some x \<Rightarrow> Some x
          | None \<Rightarrow> default_content_type s) = Some v"
    and "parse_content_type v = Inr c"
  shows "fst (get_request_body self)
           = (case getitem s (type_subtype_suffix c) of
                Inl e \<Rightarrow> Inl (if e = KeyError then HTTPError 415 else e)
              | Inr h \<Rightarrow>
                  (case from_bytes h (body (request self)) of
                     Inl e \<Rightarrow> Inl (HTTPError 400)
                   | Inr x \<Rightarrow> Inr x))"
  using assms
  by (simp add: get_request_body_def Let_def split: sum.splits)

text \<open>
  C6, as amended. For a handler that has no decoded body cached and whose declared
  content type (the \<^verbatim>\<open>Content-Type\<close> header, or the default content type when the
  header is absent) parses: \<^verbatim>\<open>get_request_body\<close> raises the HTTP error 415 exactly
  when the registry has no transcoder under the parsed type reduced to
  \<^verbatim>\<open>type/subtype+suffix\<close>; it raises the HTTP error 400 exactly when that lookup
  finds a transcoder whose \<^verbatim>\<open>from_bytes\<close> fails on the body; and it returns a
  value exactly when the transcoder found returns that value, so never a partial one.
\<close>

theorem request_body_errors:
  assumes "request_body self = PNone"
    and "get_settings (application self) True = (Some s, app')"
    and "(case headers (request self) ''Content-Type'' of
            Some x \<Rightarrow> Some x
          | None \<Rightarrow> default_content_type s) = Some v"
    and "parse_content_type v = Inr c"
  shows "((fst (get_request_body self) = Inl (HTTPError 415))
            = (getitem s (type_subtype_suffix c) = Inl KeyError))
       \<and> ((fst (get_request_body self) = Inl (HTTPError 400))
            = (\<exists>h e. getitem s (type_subtype_suffix c) = Inr h
                     \<and> from_bytes h (body (request self)) = Inl e))
       \<and> (\<forall>x. (fst (get_request_body self) = Inr x)
            = (\<exists>h. getitem s (type_subtype_suffix c) = Inr h
                   \<and> from_bytes h (body (request self)) = Inr x))"
proof (cases "getitem s (type_subtype_suffix c)")
  case (Inl e)
  then have "e = ValueError \<or> e = KeyError" by (rule getitem_error)
  with Inl show ?thesis
    unfolding get_request_body_uncached [OF assms] by auto
next
  case (Inr h)
  then show ?thesis
    unfolding get_request_body_uncached [OF assms]
    by (cases "from_bytes h (body (request self))") auto
qed

theorem request_body_errors_witness:
  "request_body (fresh_handler octet_application
                   [(''Content-Type'', ''application/octet-stream; charset=binary'')] []) = PNone
   \<and> fst (get_settings (application (fresh_handler octet_application
                   [(''Content-Type'', ''application/octet-stream; charset=binary'')] [])) True)
       = settings octet_application SETTINGS_KEY
   \<and> parse_content_type ''application/octet-stream; charset=binary''
       = Inr \<lparr>content_type = ''application'', content_subtype = ''octet-stream'',
              content_suffix = None, parameters = [(''charset'', ''binary'')]\<rparr>
   \<and> getitem (the (settings octet_application SETTINGS_KEY)) ''application/octet-stream''
       = Inr octet_transcoder
   \<and> from_bytes octet_transcoder [] = Inl DecodeError
   \<and> fst (get_request_body (fresh_handler octet_application
                   [(''Content-Type'', ''application/octet-stream; charset=binary'')] []))
       = Inl (HTTPError 400)"
proof -
  let ?h = "fresh_handler octet_application
              [(''Content-Type'', ''application/octet-stream; charset=binary'')] []"
  let ?s = "\<lparr> handlers = [''application/octet-stream'' \<mapsto> octet_transcoder],
             available_types = [\<lparr>content_type = ''application'', content_subtype = ''octet-stream'',
                                 content_suffix = None, parameters = []\<rparr>],
             default_content_type = None, default_encoding = None \<rparr>"
  let ?c = "\<lparr>content_type = ''application'', content_subtype = ''octet-stream'',
              content_suffix = None, parameters = [(''charset'', ''binary'')]\<rparr>"
  have a: "request_body ?h = PNone"
    by (simp add: fresh_handler_def initialize_def)
  have b: "get_settings (application ?h) True = (Some ?s, octet_application)"
    by (simp add: fresh_handler_def initialize_def octet_application_eq get_settings_def)
  have b': "settings octet_application SETTINGS_KEY = Some ?s"
    by (simp add: octet_application_eq)
  have c: "(case headers (request ?h) ''Content-Type'' of
              Some x \<Rightarrow> Some x
            | None \<Rightarrow> default_content_type ?s) = Some ''application/octet-stream; charset=binary''"
    by (simp add: fresh_handler_def initialize_def)
  have d: "parse_content_type ''application/octet-stream; charset=binary'' = Inr ?c"
    by (simp add: parse_eval_simps)
  have t: "type_subtype_suffix ?c = ''application/octet-stream''"
    by (simp add: type_subtype_suffix_def)
  have g: "getitem ?s ''application/octet-stream'' = Inr octet_transcoder"
    by (simp add: getitem_def parse_eval_simps)
  have f: "from_bytes octet_transcoder [] = Inl DecodeError"
    by (simp add: octet_transcoder_def BinaryContentHandler_def unpack_octets_def)
  have bd: "body (request ?h) = []"
    by (simp add: fresh_handler_def initialize_def)
  from request_body_errors [OF a b c d]
  have "(fst (get_request_body ?h) = Inl (HTTPError 400))
            = (\<exists>h e. getitem ?s (type_subtype_suffix ?c) = Inr h
                     \<and> from_bytes h (body (request ?h)) = Inl e)"
    by blast
  moreover have "\<exists>h e. getitem ?s (type_subtype_suffix ?c) = Inr h
                     \<and> from_bytes h (body (request ?h)) = Inl e"
    unfolding t bd using g f by blast
  ultimately have r: "fst (get_request_body ?h) = Inl (HTTPError 400)"
    by blast
  have gs: "getitem (the (settings octet_application SETTINGS_KEY)) ''application/octet-stream''
              = Inr octet_transcoder"
    unfolding b' option.sel by (rule g)
  have bs: "fst (get_settings (application ?h) True) = settings octet_application SETTINGS_KEY"
    unfolding b b' by simp
  from a bs d gs f r show ?thesis by blast
qed

theorem request_body_errors_counterexample:
  "getitem (the (settings versioned_json_application SETTINGS_KEY)) ''application/json; version=1''
     = Inr FakeContentHandler
   \<and> fst (get_request_body (fresh_handler versioned_json_application
                               [(''Content-Type'', ''application/json; version=1'')] []))
       = Inl (HTTPError 415)"
proof -
  have a: "getitem (the (settings versioned_json_application SETTINGS_KEY))
             ''application/json; version=1'' = Inr FakeContentHandler"
    by (simp add: versioned_json_application_eq getitem_def parse_eval_simps)
  have b: "fst (get_request_body (fresh_handler versioned_json_application
                               [(''Content-Type'', ''application/json; version=1'')] []))
       = Inl (HTTPError 415)"
    by (simp add: versioned_json_application_eq handler_eval_simps
          registry_eval_simps negotiation_eval_simps parse_eval_simps)
  from a b show ?thesis by blast
qed

text \<open>
  C7, as amended. When \<^verbatim>\<open>get_response_content_type\<close> yields \<^verbatim>\<open>None\<close> or the
  empty string, as it does when nothing is cached, the selection finds no match and no
  default content type is set, \<^verbatim>\<open>send_response\<close> raises the HTTP error 415. When it
  yields a content type under which the registry finds a transcoder, and the
  transcoder's \<^verbatim>\<open>to_bytes\<close> returns a content type and bytes, the bytes are
  written; with \<^verbatim>\<open>set_content_type\<close> the \<^verbatim>\<open>Content-Type\<close> header is set to the
  returned content type and \<^verbatim>\<open>Vary: Accept\<close> is added, and without it the headers
  stay as they are.
\<close>

theorem send_response_outcome:
  assumes "get_settings (application self) True = (Some s, app')"
    and "get_response_content_type lib (self\<lparr> application := app' \<rparr>) = (Inr rt, self2)"
  shows "((rt = None \<or> rt = Some []) \<longrightarrow>
            send_response lib self b sct = (Some (HTTPError 415), self2))
       \<and> (best_response_match self = None \<and> default_content_type s = None
            \<and> (\<exists>acc. parse_accept lib (accept_header_value s (request self)) = Inr acc
                     \<and> select_content_type lib acc (available_content_types s) = Inl NoMatch)
            \<longrightarrow> send_response lib self b sct = (Some (HTTPError 415), self2))
       \<and> (\<forall>t h ct data.
             rt = Some t \<and> t \<noteq> [] \<and> getitem s t = Inr h \<and> to_bytes h b = Inr (ct, data) \<longrightarrow>
             send_response lib self b sct
               = (None,
                  (if sct
                   then self2\<lparr> response_headers :=
                          filter (\<lambda>x. fst x \<noteq> ''Content-Type'') (response_headers self2)
                            @ [(''Content-Type'', ct), (''Vary'', ''Accept'')] \<rparr>
                   else self2)\<lparr> write_buffer := write_buffer self2 @ [data] \<rparr>))"
proof -
  have one: "send_response lib self b sct = (Some (HTTPError 415), self2)"
    if "rt = None \<or> rt = Some []"
    using that assms by (auto simp: send_response_def)
  have two: "rt = None"
    if "best_response_match self = None" and "default_content_type s = None"
      and "\<exists>acc. parse_accept lib (accept_header_value s (request self)) = Inr acc
                     \<and> select_content_type lib acc (available_content_types s) = Inl NoMatch"
  proof -
    have g: "get_settings (application (self\<lparr> application := app' \<rparr>)) True = (Some s, app')"
      using assms(1)
      by (auto simp: get_settings_def install_def Let_def split: option.splits if_splits)
    show ?thesis
      using that assms(2) g
      by (auto simp: get_response_content_type_def Let_def)
  qed
  have three: "send_response lib self b sct
               = (None,
                  (if sct
                   then self2\<lparr> response_headers :=
                          filter (\<lambda>x. fst x \<noteq> ''Content-Type'') (response_headers self2)
                            @ [(''Content-Type'', ct), (''Vary'', ''Accept'')] \<rparr>
                   else self2)\<lparr> write_buffer := write_buffer self2 @ [data] \<rparr>)"
    if "rt = Some t" and "t \<noteq> []" and "getitem s t = Inr h" and "to_bytes h b = Inr (ct, data)"
    for t h ct data
    using that assms
    by (simp add: send_response_def set_header_def add_header_def write_chunk_def)
  from one two three show ?thesis by blast
qed

theorem send_response_outcome_witness:
  "fst (get_settings (application (fresh_handler octet_application
                        [(''Accept'', ''application/octet-stream'')] [])) True)
     = settings octet_application SETTINGS_KEY
   \<and> fst (get_response_content_type ietfparse
            (fresh_handler octet_application [(''Accept'', ''application/octet-stream'')] []))
       = Inr (Some ''application/octet-stream'')
   \<and> getitem (the (settings octet_application SETTINGS_KEY)) ''application/octet-stream''
       = Inr octet_transcoder
   \<and> to_bytes octet_transcoder (PBytes [1, 2]) = Inr (''application/octet-stream'', [1, 2])
   \<and> fst (send_response ietfparse
            (fresh_handler octet_application [(''Accept'', ''application/octet-stream'')] [])
            (PBytes [1, 2]) True) = None
   \<and> response_headers (snd (send_response ietfparse
            (fresh_handler octet_application [(''Accept'', ''application/octet-stream'')] [])
            (PBytes [1, 2]) True))
       = [(''Content-Type'', ''application/octet-stream''), (''Vary'', ''Accept'')]
   \<and> write_buffer (snd (send_response ietfparse
            (fresh_handler octet_application [(''Accept'', ''application/octet-stream'')] [])
            (PBytes [1, 2]) True)) = [[1, 2]]"
proof -
  let ?h = "fresh_handler octet_application [(''Accept'', ''application/octet-stream'')] []"
  let ?s = "\<lparr> handlers = [''application/octet-stream'' \<mapsto> octet_transcoder],
             available_types = [\<lparr>content_type = ''application'', content_subtype = ''octet-stream'',
                                 content_suffix = None, parameters = []\<rparr>],
             default_content_type = None, default_encoding = None \<rparr>"
  have a: "get_settings (application ?h) True = (Some ?s, octet_application)"
    by (simp add: fresh_handler_def initialize_def octet_application_eq get_settings_def)
  have s': "settings octet_application SETTINGS_KEY = Some ?s"
    by (simp add: octet_application_eq)
  have ap: "?h\<lparr> application := octet_application \<rparr> = ?h"
    by (simp add: fresh_handler_def initialize_def)
  have b: "get_response_content_type ietfparse (?h\<lparr> application := octet_application \<rparr>)
             = (Inr (Some ''application/octet-stream''),
                ?h\<lparr> best_response_match := Some ''application/octet-stream'' \<rparr>)"
    unfolding ap
    by (simp add: octet_application_eq handler_eval_simps
          registry_eval_simps negotiation_eval_simps parse_eval_simps)
  have g: "getitem ?s ''application/octet-stream'' = Inr octet_transcoder"
    by (simp add: getitem_def parse_eval_simps)
  have t: "to_bytes octet_transcoder (PBytes [1, 2]) = Inr (''application/octet-stream'', [1, 2])"
    by (simp add: octet_transcoder_def BinaryContentHandler_def pack_octets_def)
  from send_response_outcome [OF a b, of "PBytes [1, 2]" True] g t
  have r: "send_response ietfparse ?h (PBytes [1, 2]) True
             = (None,
                (?h\<lparr> best_response_match := Some ''application/octet-stream'' \<rparr>)
                  \<lparr> response_headers :=
                      filter (\<lambda>x. fst x \<noteq> ''Content-Type'')
                        (response_headers (?h\<lparr> best_response_match := Some ''application/octet-stream'' \<rparr>))
                        @ [(''Content-Type'', ''application/octet-stream''), (''Vary'', ''Accept'')],
                    write_buffer :=
                      write_buffer (?h\<lparr> best_response_match := Some ''application/octet-stream'' \<rparr>)
                        @ [[1, 2]] \<rparr>)"
    by simp
  have r1: "fst (send_response ietfparse ?h (PBytes [1, 2]) True) = None"
    unfolding r by simp
  have r2: "response_headers (snd (send_response ietfparse ?h (PBytes [1, 2]) True))
       = [(''Content-Type'', ''application/octet-stream''), (''Vary'', ''Accept'')]"
    unfolding r by (simp add: fresh_handler_def initialize_def)
  have r3: "write_buffer (snd (send_response ietfparse ?h (PBytes [1, 2]) True)) = [[1, 2]]"
    unfolding r by (simp add: fresh_handler_def initialize_def)
  have a': "fst (get_settings (application ?h) True) = settings octet_application SETTINGS_KEY"
    unfolding a s' by simp
  have b': "fst (get_response_content_type ietfparse ?h) = Inr (Some ''application/octet-stream'')"
    using b unfolding ap by simp
  have g': "getitem (the (settings octet_application SETTINGS_KEY)) ''application/octet-stream''
              = Inr octet_transcoder"
    unfolding s' option.sel by (rule g)
  from a' b' g' t r1 r2 r3 show ?thesis by blast
qed

theorem send_response_outcome_counterexample:
  "fst (get_response_content_type ietfparse
          (fresh_handler msgpack_only_application [(''Accept'', ''application/xml'')] []))
     = Inr (Some ''application/json'')
   \<and> default_content_type (the (settings msgpack_only_application SETTINGS_KEY))
       = Some ''application/json''
   \<and> fst (send_response ietfparse
            (fresh_handler msgpack_only_application [(''Accept'', ''application/xml'')] [])
            (PDict []) True) = Some KeyError
   \<and> response_headers (snd (send_response ietfparse
            (fresh_handler msgpack_only_application [(''Accept'', ''application/xml'')] [])
            (PDict []) True)) = []
   \<and> write_buffer (snd (send_response ietfparse
            (fresh_handler msgpack_only_application [(''Accept'', ''application/xml'')] [])
            (PDict []) True)) = []"
proof -
  let ?h = "fresh_handler msgpack_only_application [(''Accept'', ''application/xml'')] []"
  have a: "fst (get_response_content_type ietfparse ?h) = Inr (Some ''application/json'')"
    by (simp add: msgpack_only_application_eq handler_eval_simps
          registry_eval_simps negotiation_eval_simps parse_eval_simps)
  have d: "default_content_type (the (settings msgpack_only_application SETTINGS_KEY))
       = Some ''application/json''"
    by (simp add: msgpack_only_application_eq)
  have r: "send_response ietfparse ?h (PDict []) True
             = (Some KeyError, ?h\<lparr> best_response_match := Some ''application/json'' \<rparr>)"
    by (simp add: msgpack_only_application_eq handler_eval_simps
          registry_eval_simps negotiation_eval_simps parse_eval_simps)
  have r1: "fst (send_response ietfparse ?h (PDict []) True) = Some KeyError"
    unfolding r by simp
  have r2: "response_headers (snd (send_response ietfparse ?h (PDict []) True)) = []"
    unfolding r by (simp add: fresh_handler_def initialize_def)
  have r3: "write_buffer (snd (send_response ietfparse ?h (PDict []) True)) = []"
    unfolding r by (simp add: fresh_handler_def initialize_def)
  from a d r1 r2 r3 show ?thesis by blast
qed

section \<open>Parameters are dropped from the lookup key\<close>


















section \<open>The encoder chooses the smallest form\<close>

subsection \<open>Bytes and numbers\<close>

lemma unat_byte_of_int: "unat (of_int n :: byte) = nat (n mod 256)"
  by (simp add: unat_eq_nat_uint uint_word_of_int)

lemma unat_byte_of_nat: "unat (of_nat n :: byte) = n mod 256"
  by (simp add: unat_of_nat)

lemma length_be_bytes: "length (be_bytes k n) = k"
  by (simp add: be_bytes_def)

lemma be_bytes_Suc: "be_bytes (Suc k) n = be_bytes k (n div 256) @ [of_int n]"
proof -
  have "map (\<lambda>i. (of_int (n div 256 ^ i) :: byte)) (rev [0 ..< Suc k])
          = map (\<lambda>i. of_int (n div 256 ^ i)) (rev (map Suc [0 ..< k])) @ [of_int n]"
    by (simp add: upt_conv_Cons map_Suc_upt del: upt_Suc)
  also have "map (\<lambda>i. (of_int (n div 256 ^ i) :: byte)) (rev (map Suc [0 ..< k]))
          = map (\<lambda>i. of_int (n div 256 div 256 ^ i)) (rev [0 ..< k])"
    by (simp add: rev_map comp_def zdiv_zmult2_eq)
  finally show ?thesis by (simp add: be_bytes_def)
qed

lemma be_value_snoc: "be_value (bs @ [b]) = be_value bs * 256 + unat b"
  by (simp add: be_value_def)

lemma be_value_be_bytes: "be_value (be_bytes k n) = nat (n mod 256 ^ k)"
proof (induction k arbitrary: n)
  case 0
  then show ?case by (simp add: be_bytes_def be_value_def)
next
  case (Suc k)
  have "be_value (be_bytes (Suc k) n) = nat ((n div 256) mod 256 ^ k) * 256 + nat (n mod 256)"
    by (simp add: be_bytes_Suc be_value_snoc Suc unat_byte_of_int)
  also have "\<dots> = nat (((n div 256) mod 256 ^ k) * 256 + n mod 256)"
    by (simp add: nat_add_distrib nat_mult_distrib)
  also have "((n div 256) mod 256 ^ k) * 256 + n mod 256 = n mod 256 ^ Suc k"
    using zmod_zmult2_eq [of "256 ^ k" n 256] by simp
  finally show ?case .
qed

lemma be_value_bound: "be_value bs < 256 ^ length bs"
proof (induction bs rule: rev_induct)
  case Nil
  then show ?case by (simp add: be_value_def)
next
  case (snoc b bs)
  have "unat b < 256" using unsigned_less [of b, where ?'a = nat] by simp
  with snoc show ?case by (simp add: be_value_snoc)
qed

lemma unat_of_char: "unat (of_char c :: byte) = of_char c"
proof -
  have "(of_char c :: byte) = of_nat (of_char c)"
    by (simp add: of_nat_of_char)
  then have "unat (of_char c :: byte) = (of_char c :: nat) mod 256"
    by (simp only: unat_byte_of_nat)
  then show ?thesis by simp
qed

lemma decode_encode_chars: "decode_chars (encode_chars s) = s"
  by (simp add: decode_chars_def encode_chars_def comp_def unat_of_char map_idI)

lemma length_encode_chars: "length (encode_chars s) = length s"
  by (simp add: encode_chars_def)

lemma fix_tags_upt:
  "\<forall>n \<in> set [0 ..< 32]. unat (0xA0 OR of_nat n :: byte) = 160 + n"
  "\<forall>n \<in> set [0 ..< 16]. unat (0x90 OR of_nat n :: byte) = 144 + n"
  "\<forall>n \<in> set [0 ..< 16]. unat (0x80 OR of_nat n :: byte) = 128 + n"
  by code_simp+

lemma fixstr_tag: "n < 32 \<Longrightarrow> unat (0xA0 OR of_nat n :: byte) = 160 + n"
  using fix_tags_upt(1) by simp

lemma fixarray_tag: "n < 16 \<Longrightarrow> unat (0x90 OR of_nat n :: byte) = 144 + n"
  using fix_tags_upt(2) by simp

lemma fixmap_tag: "n < 16 \<Longrightarrow> unat (0x80 OR of_nat n :: byte) = 128 + n"
  using fix_tags_upt(3) by simp

subsection \<open>Reading back what the encoder writes\<close>

lemma take_bytes_append: "length a = k \<Longrightarrow> take_bytes k (a @ r) = Inr (a, r)"
  by (simp add: take_bytes_def)

lemma read_uint_be_bytes:
  "read_uint k (be_bytes k n @ r) = Inr (nat (n mod 256 ^ k), r)"
  by (simp add: read_uint_def take_bytes_append length_be_bytes be_value_be_bytes)

lemma read_number_be_bytes:
  "read_number k (be_bytes k n @ r) f = Inr (f (nat (n mod 256 ^ k)), r)"
  by (simp add: read_number_def read_uint_be_bytes)

lemma read_payload_append:
  "length p = n \<Longrightarrow> read_payload n (p @ r) f = Inr (Scalar (f p), r)"
  by (simp add: read_payload_def take_bytes_append)

lemma read_sized_append:
  "0 \<le> n \<Longrightarrow> n < 256 ^ k \<Longrightarrow> int (length p) = n \<Longrightarrow>
     read_sized k (be_bytes k n @ p @ r) f = Inr (Scalar (f p), r)"
  by (simp add: read_sized_def read_uint_be_bytes read_payload_append)

lemma neg_mod: "n < 0 \<Longrightarrow> - m \<le> n \<Longrightarrow> (n :: int) mod m = n + m"
proof -
  assume a: "n < 0" "- m \<le> n"
  have "(n + m) mod m = n + m"
    using a by (intro mod_pos_pos_trivial) auto
  then show ?thesis by simp
qed

lemma signed_value_negative:
  assumes "n < 0" and "- (2 ^ (8 * k - 1)) \<le> n" and "0 < k"
  shows "signed_value k (nat (n mod 256 ^ k)) = n"
proof -
  have p: "(256 :: int) ^ k = 2 ^ (8 * k)"
    by (simp add: power_mult)
  have h: "(2 :: int) ^ (8 * k) = 2 * 2 ^ (8 * k - 1)"
    using assms(3) by (metis Suc_pred' mult_pos_pos power_Suc zero_less_numeral)
  have m: "n mod 256 ^ k = n + 2 ^ (8 * k)"
    unfolding p using assms h by (intro neg_mod) auto
  have "\<not> nat (n + 2 ^ (8 * k)) < 2 ^ (8 * k - 1)"
  proof
    assume "nat (n + 2 ^ (8 * k)) < 2 ^ (8 * k - 1)"
    then have "n + 2 ^ (8 * k) < 2 ^ (8 * k - 1)"
      using assms h by (simp add: nat_less_iff)
    with assms h show False by simp
  qed
  moreover have "0 \<le> n + 2 ^ (8 * k)"
    using assms h by simp
  ultimately show ?thesis
    by (simp add: signed_value_def m)
qed

lemma unpack_header_tag:
  "unpack_header 0xC0 rest = Inr (Scalar PNone, rest)"
  "unpack_header 0xC2 rest = Inr (Scalar (PBool False), rest)"
  "unpack_header 0xC3 rest = Inr (Scalar (PBool True), rest)"
  "unpack_header 0xC4 rest = read_sized 1 rest PBytes"
  "unpack_header 0xC5 rest = read_sized 2 rest PBytes"
  "unpack_header 0xC6 rest = read_sized 4 rest PBytes"
  "unpack_header 0xCC rest = read_number 1 rest (\<lambda>u. Scalar (PInt (int u)))"
  "unpack_header 0xCD rest = read_number 2 rest (\<lambda>u. Scalar (PInt (int u)))"
  "unpack_header 0xCE rest = read_number 4 rest (\<lambda>u. Scalar (PInt (int u)))"
  "unpack_header 0xCF rest = read_number 8 rest (\<lambda>u. Scalar (PInt (int u)))"
  "unpack_header 0xD0 rest = read_number 1 rest (\<lambda>u. Scalar (PInt (signed_value 1 u)))"
  "unpack_header 0xD1 rest = read_number 2 rest (\<lambda>u. Scalar (PInt (signed_value 2 u)))"
  "unpack_header 0xD2 rest = read_number 4 rest (\<lambda>u. Scalar (PInt (signed_value 4 u)))"
  "unpack_header 0xD3 rest = read_number 8 rest (\<lambda>u. Scalar (PInt (signed_value 8 u)))"
  "unpack_header 0xD9 rest = read_sized 1 rest (\<lambda>p. PStr (decode_chars p))"
  "unpack_header 0xDA rest = read_sized 2 rest (\<lambda>p. PStr (decode_chars p))"
  "unpack_header 0xDB rest = read_sized 4 rest (\<lambda>p. PStr (decode_chars p))"
  "unpack_header 0xDC rest = read_number 2 rest Elements"
  "unpack_header 0xDD rest = read_number 4 rest Elements"
  "unpack_header 0xDE rest = read_number 2 rest Pairs"
  "unpack_header 0xDF rest = read_number 4 rest Pairs"
  by (simp_all add: unpack_header_def Let_def)

lemma unpack_header_positive_fixint:
  "unat tag < 0x80 \<Longrightarrow> unpack_header tag rest = Inr (Scalar (PInt (int (unat tag))), rest)"
  by (simp add: unpack_header_def Let_def)

lemma unpack_header_negative_fixint:
  "0xE0 \<le> unat tag \<Longrightarrow> unpack_header tag rest = Inr (Scalar (PInt (int (unat tag) - 256)), rest)"
  by (simp add: unpack_header_def Let_def)

lemma unpack_header_fixmap:
  "0x80 \<le> unat tag \<Longrightarrow> unat tag < 0x90 \<Longrightarrow>
     unpack_header tag rest = Inr (Pairs (unat tag - 0x80), rest)"
  by (simp add: unpack_header_def Let_def)

lemma unpack_header_fixarray:
  "0x90 \<le> unat tag \<Longrightarrow> unat tag < 0xA0 \<Longrightarrow>
     unpack_header tag rest = Inr (Elements (unat tag - 0x90), rest)"
  by (simp add: unpack_header_def Let_def)

lemma unpack_header_fixstr:
  "0xA0 \<le> unat tag \<Longrightarrow> unat tag < 0xC0 \<Longrightarrow>
     unpack_header tag rest = read_payload (unat tag - 0xA0) rest (\<lambda>p. PStr (decode_chars p))"
  by (simp add: unpack_header_def Let_def)

lemma signed_form:
  assumes "n < 0" and "- (2 ^ (8 * k - 1)) \<le> n" and "0 < k"
  shows "read_number k (be_bytes k n @ rest) (\<lambda>u. Scalar (PInt (signed_value k u)))
           = Inr (Scalar (PInt n), rest)"
  by (simp add: read_number_be_bytes signed_value_negative [OF assms])

lemma unpack_header_integer:
  assumes "pack_integer n = Inr (tag # bs)"
  shows "unpack_header tag (bs @ rest) = Inr (Scalar (PInt n), rest)"
proof (cases "0 \<le> n")
  case True
  then show ?thesis
    using assms
    by (auto simp: pack_integer_def unpack_header_tag unpack_header_positive_fixint
                   unat_byte_of_int read_number_be_bytes nat_less_iff
             split: if_splits)
next
  case False
  then have neg: "n < 0" by simp
  consider "- (2 ^ 5) \<le> n"
    | "\<not> - (2 ^ 5) \<le> n" "- (2 ^ 7) \<le> n"
    | "\<not> - (2 ^ 7) \<le> n" "- (2 ^ 15) \<le> n"
    | "\<not> - (2 ^ 15) \<le> n" "- (2 ^ 31) \<le> n"
    | "\<not> - (2 ^ 31) \<le> n" "- (2 ^ 63) \<le> n"
    | "\<not> - (2 ^ 63) \<le> n"
    by linarith
  then show ?thesis
  proof cases
    case 1
    have m: "n mod 256 = n + 256" using neg 1 by (intro neg_mod) auto
    from 1 neg assms have t: "tag = of_int n" and b: "bs = []"
      by (auto simp: pack_integer_def)
    have u: "unat tag = nat (n + 256)"
      by (simp add: t unat_byte_of_int m)
    have ge: "0xE0 \<le> unat tag" using 1 unfolding u by simp
    have ui: "int (unat tag) - 256 = n" unfolding u using 1 by simp
    show ?thesis
      unfolding unpack_header_negative_fixint [OF ge] b ui by simp
  next
    case 2
    from 2 neg assms have tb: "tag = 0xD0" "bs = be_bytes 1 n"
      by (auto simp: pack_integer_def)
    show ?thesis
      unfolding tb unpack_header_tag by (rule signed_form) (use neg 2 in auto)
  next
    case 3
    from 3 neg assms have tb: "tag = 0xD1" "bs = be_bytes 2 n"
      by (auto simp: pack_integer_def)
    show ?thesis
      unfolding tb unpack_header_tag by (rule signed_form) (use neg 3 in auto)
  next
    case 4
    from 4 neg assms have tb: "tag = 0xD2" "bs = be_bytes 4 n"
      by (auto simp: pack_integer_def)
    show ?thesis
      unfolding tb unpack_header_tag by (rule signed_form) (use neg 4 in auto)
  next
    case 5
    from 5 neg assms have tb: "tag = 0xD3" "bs = be_bytes 8 n"
      by (auto simp: pack_integer_def)
    show ?thesis
      unfolding tb unpack_header_tag by (rule signed_form) (use neg 5 in auto)
  next
    case 6
    with neg assms show ?thesis
      by (simp add: pack_integer_def)
  qed
qed


lemma unpack_header_str:
  assumes "pack_str s = Inr (tag # bs)"
  shows "unpack_header tag (bs @ rest) = Inr (Scalar (PStr s), rest)"
proof -
  let ?p = "encode_chars s"
  let ?n = "length ?p"
  consider "?n < 2 ^ 5"
    | "\<not> ?n < 2 ^ 5" "?n < 2 ^ 8"
    | "\<not> ?n < 2 ^ 8" "?n < 2 ^ 16"
    | "\<not> ?n < 2 ^ 16" "?n < 2 ^ 32"
    | "\<not> ?n < 2 ^ 32"
    by linarith
  then show ?thesis
  proof cases
    case 1
    with assms have tb: "tag = 0xA0 OR of_nat ?n" "bs = ?p"
      by (auto simp: pack_str_def Let_def)
    have u: "unat tag = 160 + ?n"
      unfolding tb using 1 by (intro fixstr_tag) simp
    have "unpack_header tag (bs @ rest)
            = read_payload (unat tag - 0xA0) (bs @ rest) (\<lambda>p. PStr (decode_chars p))"
      using 1 by (intro unpack_header_fixstr) (simp_all add: u)
    then show ?thesis
      by (simp add: u tb(2) read_payload_append decode_encode_chars)
  next
    case 2
    with assms have tb: "tag = 0xD9" "bs = be_bytes 1 (int ?n) @ ?p"
      by (auto simp: pack_str_def Let_def)
    show ?thesis
      unfolding tb unpack_header_tag append_assoc
      using 2 by (subst read_sized_append) (simp_all add: decode_encode_chars)
  next
    case 3
    with assms have tb: "tag = 0xDA" "bs = be_bytes 2 (int ?n) @ ?p"
      by (auto simp: pack_str_def Let_def)
    show ?thesis
      unfolding tb unpack_header_tag append_assoc
      using 3 by (subst read_sized_append) (simp_all add: decode_encode_chars)
  next
    case 4
    with assms have tb: "tag = 0xDB" "bs = be_bytes 4 (int ?n) @ ?p"
      by (auto simp: pack_str_def Let_def)
    show ?thesis
      unfolding tb unpack_header_tag append_assoc
      using 4 by (subst read_sized_append) (simp_all add: decode_encode_chars)
  next
    case 5
    with assms show ?thesis by (simp add: pack_str_def Let_def)
  qed
qed

lemma unpack_header_bin:
  assumes "pack_bin p = Inr (tag # bs)"
  shows "unpack_header tag (bs @ rest) = Inr (Scalar (PBytes p), rest)"
proof -
  let ?n = "length p"
  consider "?n < 2 ^ 8"
    | "\<not> ?n < 2 ^ 8" "?n < 2 ^ 16"
    | "\<not> ?n < 2 ^ 16" "?n < 2 ^ 32"
    | "\<not> ?n < 2 ^ 32"
    by linarith
  then show ?thesis
  proof cases
    case 1
    with assms have tb: "tag = 0xC4" "bs = be_bytes 1 (int ?n) @ p"
      by (auto simp: pack_bin_def Let_def)
    show ?thesis
      unfolding tb unpack_header_tag append_assoc
      using 1 by (subst read_sized_append) simp_all
  next
    case 2
    with assms have tb: "tag = 0xC5" "bs = be_bytes 2 (int ?n) @ p"
      by (auto simp: pack_bin_def Let_def)
    show ?thesis
      unfolding tb unpack_header_tag append_assoc
      using 2 by (subst read_sized_append) simp_all
  next
    case 3
    with assms have tb: "tag = 0xC6" "bs = be_bytes 4 (int ?n) @ p"
      by (auto simp: pack_bin_def Let_def)
    show ?thesis
      unfolding tb unpack_header_tag append_assoc
      using 3 by (subst read_sized_append) simp_all
  next
    case 4
    with assms show ?thesis by (simp add: pack_bin_def Let_def)
  qed
qed

lemma read_number_count:
  "n < 256 ^ k \<Longrightarrow> read_number k (be_bytes k (int n) @ r) f = Inr (f n, r)"
  by (simp add: read_number_be_bytes nat_mod_distrib flip: of_nat_power)

lemma unpack_header_array:
  assumes "pack_array_header n = Inr (tag # bs)"
  shows "unpack_header tag (bs @ rest) = Inr (Elements n, rest)"
proof -
  consider "n < 2 ^ 4"
    | "\<not> n < 2 ^ 4" "n < 2 ^ 16"
    | "\<not> n < 2 ^ 16" "n < 2 ^ 32"
    | "\<not> n < 2 ^ 32"
    by linarith
  then show ?thesis
  proof cases
    case 1
    with assms have tb: "tag = 0x90 OR of_nat n" "bs = []"
      by (auto simp: pack_array_header_def)
    have u: "unat tag = 144 + n"
      unfolding tb using 1 by (intro fixarray_tag) simp
    have "unpack_header tag (bs @ rest) = Inr (Elements (unat tag - 0x90), bs @ rest)"
      using 1 by (intro unpack_header_fixarray) (simp_all add: u)
    then show ?thesis by (simp add: u tb(2))
  next
    case 2
    with assms have tb: "tag = 0xDC" "bs = be_bytes 2 (int n)"
      by (auto simp: pack_array_header_def)
    show ?thesis
      unfolding tb unpack_header_tag using 2 by (intro read_number_count) simp
  next
    case 3
    with assms have tb: "tag = 0xDD" "bs = be_bytes 4 (int n)"
      by (auto simp: pack_array_header_def)
    show ?thesis
      unfolding tb unpack_header_tag using 3 by (intro read_number_count) simp
  next
    case 4
    with assms show ?thesis by (simp add: pack_array_header_def)
  qed
qed

lemma unpack_header_map:
  assumes "pack_map_header n = Inr (tag # bs)"
  shows "unpack_header tag (bs @ rest) = Inr (Pairs n, rest)"
proof -
  consider "n < 2 ^ 4"
    | "\<not> n < 2 ^ 4" "n < 2 ^ 16"
    | "\<not> n < 2 ^ 16" "n < 2 ^ 32"
    | "\<not> n < 2 ^ 32"
    by linarith
  then show ?thesis
  proof cases
    case 1
    with assms have tb: "tag = 0x80 OR of_nat n" "bs = []"
      by (auto simp: pack_map_header_def)
    have u: "unat tag = 128 + n"
      unfolding tb using 1 by (intro fixmap_tag) simp
    have "unpack_header tag (bs @ rest) = Inr (Pairs (unat tag - 0x80), bs @ rest)"
      using 1 by (intro unpack_header_fixmap) (simp_all add: u)
    then show ?thesis by (simp add: u tb(2))
  next
    case 2
    with assms have tb: "tag = 0xDE" "bs = be_bytes 2 (int n)"
      by (auto simp: pack_map_header_def)
    show ?thesis
      unfolding tb unpack_header_tag using 2 by (intro read_number_count) simp
  next
    case 3
    with assms have tb: "tag = 0xDF" "bs = be_bytes 4 (int n)"
      by (auto simp: pack_map_header_def)
    show ?thesis
      unfolding tb unpack_header_tag using 3 by (intro read_number_count) simp
  next
    case 4
    with assms show ?thesis by (simp add: pack_map_header_def)
  qed
qed

subsection \<open>Decoding an encoding gives the value back\<close>

lemma pack_integer_nonempty: "pack_integer n = Inr bs \<Longrightarrow> bs \<noteq> []"
  by (auto simp: pack_integer_def split: if_splits)

lemma pack_str_nonempty: "pack_str s = Inr bs \<Longrightarrow> bs \<noteq> []"
  by (auto simp: pack_str_def Let_def split: if_splits)

lemma pack_bin_nonempty: "pack_bin p = Inr bs \<Longrightarrow> bs \<noteq> []"
  by (auto simp: pack_bin_def Let_def split: if_splits)

lemma pack_array_header_nonempty: "pack_array_header n = Inr bs \<Longrightarrow> bs \<noteq> []"
  by (auto simp: pack_array_header_def split: if_splits)

lemma pack_map_header_nonempty: "pack_map_header n = Inr bs \<Longrightarrow> bs \<noteq> []"
  by (auto simp: pack_map_header_def split: if_splits)

lemma packb_nonempty: "packb v = Inr bs \<Longrightarrow> bs \<noteq> []"
  by (cases v)
     (auto dest: pack_integer_nonempty pack_str_nonempty pack_bin_nonempty
                 pack_array_header_nonempty pack_map_header_nonempty
           split: sum.splits)

lemma unpack_scalar:
  "unpack_header tag bs = Inr (Scalar v, rest) \<Longrightarrow> unpack (tag # bs) = Inr (v, rest)"
  by simp

lemma unpack_packb:
  "\<forall>bs rest. packb v = Inr bs \<longrightarrow> unpack (bs @ rest) = Inr (v, rest)"
  "\<forall>bs rest. packb_all xs = Inr bs \<longrightarrow> unpack_all (length xs) (bs @ rest) = Inr (xs, rest)"
  "\<forall>bs rest. packb_items kvs = Inr bs \<longrightarrow>
       unpack_items (length kvs) (bs @ rest) = Inr (kvs, rest)"
proof (induction v and xs and kvs rule: packb_packb_all_packb_items.induct)
  case 1
  show ?case by (simp add: unpack_header_tag)
next
  case (2 b)
  show ?case by (cases b) (simp_all add: unpack_header_tag)
next
  case (3 n)
  show ?case
  proof (intro allI impI)
    fix bs rest assume a: "packb (PInt n) = Inr bs"
    then obtain tag bs' where b: "bs = tag # bs'"
      using pack_integer_nonempty [of n bs] by (cases bs) auto
    with a have "unpack_header tag (bs' @ rest) = Inr (Scalar (PInt n), rest)"
      by (intro unpack_header_integer) simp
    then show "unpack (bs @ rest) = Inr (PInt n, rest)"
      by (simp add: b)
  qed
next
  case (4 s)
  show ?case
  proof (intro allI impI)
    fix bs rest assume a: "packb (PStr s) = Inr bs"
    then obtain tag bs' where b: "bs = tag # bs'"
      using pack_str_nonempty [of s bs] by (cases bs) auto
    with a have "unpack_header tag (bs' @ rest) = Inr (Scalar (PStr s), rest)"
      by (intro unpack_header_str) simp
    then show "unpack (bs @ rest) = Inr (PStr s, rest)"
      by (simp add: b)
  qed
next
  case (5 p)
  show ?case
  proof (intro allI impI)
    fix bs rest assume a: "packb (PBytes p) = Inr bs"
    then obtain tag bs' where b: "bs = tag # bs'"
      using pack_bin_nonempty [of p bs] by (cases bs) auto
    with a have "unpack_header tag (bs' @ rest) = Inr (Scalar (PBytes p), rest)"
      by (intro unpack_header_bin) simp
    then show "unpack (bs @ rest) = Inr (PBytes p, rest)"
      by (simp add: b)
  qed
next
  case (6 xs)
  show ?case
  proof (intro allI impI)
    fix bs rest assume a: "packb (PList xs) = Inr bs"
    then obtain h tail where h: "pack_array_header (length xs) = Inr h"
      and tail: "packb_all xs = Inr tail" and bs: "bs = h @ tail"
      by (auto split: sum.splits)
    obtain tag h' where hh: "h = tag # h'"
      using pack_array_header_nonempty [OF h] by (cases h) auto
    have u: "unpack_header tag (h' @ tail @ rest) = Inr (Elements (length xs), tail @ rest)"
      using h unfolding hh by (rule unpack_header_array)
    have ih: "unpack_all (length xs) (tail @ rest) = Inr (xs, rest)"
      using 6 [OF h] tail by blast
    show "unpack (bs @ rest) = Inr (PList xs, rest)"
      by (simp add: bs hh u ih)
  qed
next
  case (7 kvs)
  show ?case
  proof (intro allI impI)
    fix bs rest assume a: "packb (PDict kvs) = Inr bs"
    then obtain h tail where h: "pack_map_header (length kvs) = Inr h"
      and tail: "packb_items kvs = Inr tail" and bs: "bs = h @ tail"
      by (auto split: sum.splits)
    obtain tag h' where hh: "h = tag # h'"
      using pack_map_header_nonempty [OF h] by (cases h) auto
    have u: "unpack_header tag (h' @ tail @ rest) = Inr (Pairs (length kvs), tail @ rest)"
      using h unfolding hh by (rule unpack_header_map)
    have ih: "unpack_items (length kvs) (tail @ rest) = Inr (kvs, rest)"
      using 7 [OF h] tail by blast
    show "unpack (bs @ rest) = Inr (PDict kvs, rest)"
      by (simp add: bs hh u ih)
  qed
next
  case 8
  show ?case by simp
next
  case (9 x xs)
  show ?case
  proof (intro allI impI)
    fix bs rest assume a: "packb_all (x # xs) = Inr bs"
    then obtain b tail where b: "packb x = Inr b"
      and tail: "packb_all xs = Inr tail" and bs: "bs = b @ tail"
      by (auto split: sum.splits)
    have u: "unpack (b @ tail @ rest) = Inr (x, tail @ rest)"
      using 9(1) b by blast
    have ih: "unpack_all (length xs) (tail @ rest) = Inr (xs, rest)"
      using 9(2) [OF b] tail by blast
    have "b \<noteq> []" using b by (rule packb_nonempty)
    then show "unpack_all (length (x # xs)) (bs @ rest) = Inr (x # xs, rest)"
      by (simp add: bs u ih)
  qed
next
  case 10
  show ?case by simp
next
  case (11 kv kvs)
  show ?case
  proof (intro allI impI)
    fix bs rest assume a: "packb_items (kv # kvs) = Inr bs"
    then obtain k v tail where k: "packb (fst kv) = Inr k" and v: "packb (snd kv) = Inr v"
      and tail: "packb_items kvs = Inr tail" and bs: "bs = k @ v @ tail"
      by (auto split: sum.splits)
    have uk: "unpack (k @ v @ tail @ rest) = Inr (fst kv, v @ tail @ rest)"
      using 11(1) k by blast
    have uv: "unpack (v @ tail @ rest) = Inr (snd kv, tail @ rest)"
      using 11(2) [OF k] v by blast
    have ih: "unpack_items (length kvs) (tail @ rest) = Inr (kvs, rest)"
      using 11(3) [OF k v] tail by blast
    have "k \<noteq> []" "v \<noteq> []" using k v by (auto dest: packb_nonempty)
    then show "unpack_items (length (kv # kvs)) (bs @ rest) = Inr (kv # kvs, rest)"
      by (simp add: bs uk uv ih)
  qed
qed

lemma unpackb_packb: "packb v = Inr bs \<Longrightarrow> unpackb bs = Inr v"
  using unpack_packb(1) [of v, rule_format, of bs "[]"] by (simp add: unpackb_def)

subsection \<open>What an accepted input looks like\<close>

lemma take_bytes_Inr:
  "take_bytes k bs = Inr (h, r) \<Longrightarrow> length h = k \<and> length bs = k + length r"
  by (auto simp: take_bytes_def split: if_splits)

lemma read_numberE:
  assumes "read_number k bs f = Inr (hdr, r)"
  obtains u where "u < 256 ^ k" and "hdr = f u" and "length bs = k + length r"
proof -
  from assms obtain h where t: "take_bytes k bs = Inr (h, r)" and hdr: "hdr = f (be_value h)"
    by (auto simp: read_number_def read_uint_def split: sum.splits)
  from t have "length h = k" and l: "length bs = k + length r"
    by (auto dest: take_bytes_Inr)
  then have "be_value h < 256 ^ k"
    using be_value_bound [of h] by simp
  with hdr l that show thesis by blast
qed

lemma read_payloadE:
  assumes "read_payload n bs f = Inr (hdr, r)"
  obtains p where "length p = n" and "hdr = Scalar (f p)" and "length bs = n + length r"
proof -
  from assms obtain p where t: "take_bytes n bs = Inr (p, r)" and h: "hdr = Scalar (f p)"
    by (auto simp: read_payload_def split: sum.splits)
  from t have "length p = n" and "length bs = n + length r"
    by (auto dest: take_bytes_Inr)
  with h that show thesis by blast
qed

lemma read_sizedE:
  assumes "read_sized k bs f = Inr (hdr, r)"
  obtains p where "length p < 256 ^ k" and "hdr = Scalar (f p)"
    and "length bs = k + length p + length r"
proof -
  from assms obtain h r1 where t: "take_bytes k bs = Inr (h, r1)"
    and rp: "read_payload (be_value h) r1 f = Inr (hdr, r)"
    by (auto simp: read_sized_def read_uint_def split: sum.splits)
  from t have lh: "length h = k" and l1: "length bs = k + length r1"
    by (auto dest: take_bytes_Inr)
  from rp obtain p where p: "length p = be_value h" and hdr: "hdr = Scalar (f p)"
    and l2: "length r1 = be_value h + length r"
    by (auto elim: read_payloadE)
  have "length p < 256 ^ k"
    using be_value_bound [of h] lh p by simp
  with hdr l1 l2 p that show thesis by simp
qed

lemma pack_integer_length:
  assumes "- (2 ^ 63) \<le> n" and "n < 2 ^ 64"
  shows "\<exists>e. pack_integer n = Inr e
           \<and> length e = (if - (2 ^ 5) \<le> n \<and> n < 2 ^ 7 then 1
                         else if - (2 ^ 7) \<le> n \<and> n < 2 ^ 8 then 2
                         else if - (2 ^ 15) \<le> n \<and> n < 2 ^ 16 then 3
                         else if - (2 ^ 31) \<le> n \<and> n < 2 ^ 32 then 5
                         else 9)"
  using assms by (auto simp: pack_integer_def length_be_bytes)

lemma pack_str_length:
  assumes "length s < 2 ^ 32"
  shows "\<exists>e. pack_str s = Inr e
           \<and> length e = length s + (if length s < 2 ^ 5 then 1
                                    else if length s < 2 ^ 8 then 2
                                    else if length s < 2 ^ 16 then 3
                                    else 5)"
  using assms by (auto simp: pack_str_def Let_def length_be_bytes length_encode_chars)

lemma pack_bin_length:
  assumes "length p < 2 ^ 32"
  shows "\<exists>e. pack_bin p = Inr e
           \<and> length e = length p + (if length p < 2 ^ 8 then 2
                                    else if length p < 2 ^ 16 then 3
                                    else 5)"
  using assms by (auto simp: pack_bin_def Let_def length_be_bytes)

lemma pack_array_header_length:
  assumes "n < 2 ^ 32"
  shows "\<exists>h. pack_array_header n = Inr h
           \<and> length h = (if n < 2 ^ 4 then 1 else if n < 2 ^ 16 then 3 else 5)"
  using assms by (auto simp: pack_array_header_def length_be_bytes)

lemma pack_map_header_length:
  assumes "n < 2 ^ 32"
  shows "\<exists>h. pack_map_header n = Inr h
           \<and> length h = (if n < 2 ^ 4 then 1 else if n < 2 ^ 16 then 3 else 5)"
  using assms by (auto simp: pack_map_header_def length_be_bytes)

lemma length_decode_chars: "length (decode_chars p) = length p"
  by (simp add: decode_chars_def)


lemma integer_fits:
  assumes "- (2 ^ 63) \<le> n" and "n < 2 ^ 64"
    and "(if - (2 ^ 5) \<le> n \<and> n < 2 ^ 7 then 1
          else if - (2 ^ 7) \<le> n \<and> n < 2 ^ 8 then 2
          else if - (2 ^ 15) \<le> n \<and> n < 2 ^ 16 then 3
          else if - (2 ^ 31) \<le> n \<and> n < 2 ^ 32 then 5
          else 9) \<le> (m :: nat)"
  shows "\<exists>e. packb (PInt n) = Inr e \<and> length e \<le> m"
  using pack_integer_length [OF assms(1,2)] assms(3) by auto

lemma unsigned_fits:
  assumes "u < 256 ^ k" and "k \<in> {1, 2, 4, 8}"
  shows "\<exists>e. packb (PInt (int u)) = Inr e \<and> length e \<le> Suc k"
proof -
  from assms consider "k = 1" "u < 256" | "k = 2" "u < 65536" | "k = 4" "u < 4294967296"
    | "k = 8" "u < 18446744073709551616"
    by auto
  then show ?thesis
    by cases (rule integer_fits; simp)+
qed

lemma signed_fits:
  assumes "u < 256 ^ k" and "k \<in> {1, 2, 4, 8}"
  shows "\<exists>e. packb (PInt (signed_value k u)) = Inr e \<and> length e \<le> Suc k"
proof -
  from assms consider "k = 1" "u < 256" | "k = 2" "u < 65536" | "k = 4" "u < 4294967296"
    | "k = 8" "u < 18446744073709551616"
    by auto
  then show ?thesis
    by cases (rule integer_fits; simp add: signed_value_def)+
qed

lemma scalar_unsigned:
  assumes "read_number k bs (\<lambda>u. Scalar (PInt (int u))) = Inr (Scalar v, rest)"
    and "k \<in> {1, 2, 4, 8}"
  shows "\<exists>e. packb v = Inr e \<and> length e + length rest \<le> Suc (length bs)"
proof -
  from assms(1) obtain u where u: "u < 256 ^ k" and v: "v = PInt (int u)"
    and l: "length bs = k + length rest"
    by (auto elim: read_numberE)
  from unsigned_fits [OF u assms(2)] show ?thesis
    unfolding v l by auto
qed

lemma scalar_signed:
  assumes "read_number k bs (\<lambda>u. Scalar (PInt (signed_value k u))) = Inr (Scalar v, rest)"
    and "k \<in> {1, 2, 4, 8}"
  shows "\<exists>e. packb v = Inr e \<and> length e + length rest \<le> Suc (length bs)"
proof -
  from assms(1) obtain u where u: "u < 256 ^ k" and v: "v = PInt (signed_value k u)"
    and l: "length bs = k + length rest"
    by (auto elim: read_numberE)
  from signed_fits [OF u assms(2)] show ?thesis
    unfolding v l by auto
qed

lemma scalar_str:
  assumes "read_sized k bs (\<lambda>p. PStr (decode_chars p)) = Inr (Scalar v, rest)"
    and "k \<in> {1, 2, 4}"
  shows "\<exists>e. packb v = Inr e \<and> length e + length rest \<le> Suc (length bs)"
proof -
  from assms(1) obtain p where p: "length p < 256 ^ k" and v: "v = PStr (decode_chars p)"
    and l: "length bs = k + length p + length rest"
    by (auto elim: read_sizedE)
  from assms(2) p have b: "length (decode_chars p) < 2 ^ 32"
    by (auto simp: length_decode_chars)
  from assms(2) p have "(if length p < 2 ^ 5 then 1
                          else if length p < 2 ^ 8 then 2
                          else if length p < 2 ^ 16 then 3
                          else 5) \<le> Suc k"
    by auto
  with pack_str_length [OF b] show ?thesis
    unfolding v l by (auto simp: length_decode_chars)
qed

lemma scalar_fixstr:
  assumes "read_payload n bs (\<lambda>p. PStr (decode_chars p)) = Inr (Scalar v, rest)"
    and "n < 32"
  shows "\<exists>e. packb v = Inr e \<and> length e + length rest \<le> Suc (length bs)"
proof -
  from assms(1) obtain p where p: "length p = n" and v: "v = PStr (decode_chars p)"
    and l: "length bs = n + length rest"
    by (auto elim: read_payloadE)
  from assms(2) p have b: "length (decode_chars p) < 2 ^ 32"
    by (simp add: length_decode_chars)
  with pack_str_length [OF b] assms(2) p show ?thesis
    unfolding v l by (auto simp: length_decode_chars)
qed

lemma scalar_bin:
  assumes "read_sized k bs PBytes = Inr (Scalar v, rest)"
    and "k \<in> {1, 2, 4}"
  shows "\<exists>e. packb v = Inr e \<and> length e + length rest \<le> Suc (length bs)"
proof -
  from assms(1) obtain p where p: "length p < 256 ^ k" and v: "v = PBytes p"
    and l: "length bs = k + length p + length rest"
    by (auto elim: read_sizedE)
  from assms(2) p have b: "length p < 2 ^ 32"
    by auto
  from assms(2) p have "(if length p < 2 ^ 8 then 2
                          else if length p < 2 ^ 16 then 3
                          else 5) \<le> Suc k"
    by auto
  with pack_bin_length [OF b] show ?thesis
    unfolding v l by auto
qed

lemma count_not_scalar:
  "read_number k bs Elements \<noteq> Inr (Scalar v, rest)"
  "read_number k bs Pairs \<noteq> Inr (Scalar v, rest)"
  by (auto elim: read_numberE)

lemma unat_byte_bound: "unat (tag :: byte) < 256"
  using unsigned_less [of tag, where ?'a = nat] by simp

lemma unpack_header_scalar:
  assumes "unpack_header tag bs = Inr (Scalar v, rest)"
  shows "\<exists>e. packb v = Inr e \<and> length e + length rest \<le> Suc (length bs)"
proof -
  let ?t = "unat tag"
  note fits = scalar_unsigned scalar_signed scalar_str scalar_bin
  consider (pos) "?t < 0x80" | (fixstr) "0xA0 \<le> ?t" "?t < 0xC0"
    | (neg) "0xE0 \<le> ?t" | (other) "\<not> ?t < 0x80" "\<not> (0xA0 \<le> ?t \<and> ?t < 0xC0)" "\<not> 0xE0 \<le> ?t"
    by linarith
  then show ?thesis
  proof cases
    case pos
    define n where "n = int ?t"
    from pos assms have v: "v = PInt n" and r: "rest = bs"
      by (simp_all add: unpack_header_positive_fixint n_def)
    have "0 \<le> n" "n < 128" using pos unfolding n_def by linarith+
    then have "\<exists>e. packb (PInt n) = Inr e \<and> length e \<le> 1"
      by (intro integer_fits) simp_all
    then show ?thesis
      unfolding v r by auto
  next
    case fixstr
    with assms have "read_payload (?t - 0xA0) bs (\<lambda>p. PStr (decode_chars p)) = Inr (Scalar v, rest)"
      by (simp add: unpack_header_fixstr)
    moreover have "?t - 0xA0 < 32" using fixstr by simp
    ultimately show ?thesis by (rule scalar_fixstr)
  next
    case neg
    define n where "n = int ?t - 256"
    from neg assms have v: "v = PInt n" and r: "rest = bs"
      by (simp_all add: unpack_header_negative_fixint n_def)
    have "n < 0" "- 32 \<le> n"
      using neg unat_byte_bound [of tag] unfolding n_def by linarith+
    then have "\<exists>e. packb (PInt n) = Inr e \<and> length e \<le> 1"
      by (intro integer_fits) simp_all
    then show ?thesis
      unfolding v r by auto
  next
    case other
    with assms show ?thesis
      unfolding unpack_header_def Let_def
      by (auto split: if_splits simp: count_not_scalar
               intro: scalar_unsigned scalar_signed scalar_str scalar_bin)
  qed
qed

subsection \<open>No accepted input is shorter than the encoding\<close>

lemma payload_not_count:
  "read_payload n bs f \<noteq> Inr (Elements m, r)" "read_payload n bs f \<noteq> Inr (Pairs m, r)"
  "read_sized k bs f \<noteq> Inr (Elements m, r)" "read_sized k bs f \<noteq> Inr (Pairs m, r)"
  by (auto elim: read_payloadE read_sizedE)

lemma number_not_count:
  "read_number k bs (\<lambda>u. Scalar (g u)) \<noteq> Inr (Elements m, r)"
  "read_number k bs (\<lambda>u. Scalar (g u)) \<noteq> Inr (Pairs m, r)"
  "read_number k bs Pairs \<noteq> Inr (Elements m, r)"
  "read_number k bs Elements \<noteq> Inr (Pairs m, r)"
  by (auto elim: read_numberE)

lemma count_array:
  assumes "read_number k bs Elements = Inr (Elements n, r)" and "k \<in> {2, 4}"
  shows "\<exists>h. pack_array_header n = Inr h \<and> length h + length r \<le> Suc (length bs)"
proof -
  from assms(1) have u: "n < 256 ^ k" and l: "length bs = k + length r"
    by (auto elim: read_numberE)
  from assms(2) u have b: "n < 2 ^ 32" by auto
  from assms(2) u have "(if n < 2 ^ 4 then 1 else if n < 2 ^ 16 then 3 else 5) \<le> Suc k"
    by auto
  with pack_array_header_length [OF b] show ?thesis
    unfolding l by auto
qed

lemma count_map:
  assumes "read_number k bs Pairs = Inr (Pairs n, r)" and "k \<in> {2, 4}"
  shows "\<exists>h. pack_map_header n = Inr h \<and> length h + length r \<le> Suc (length bs)"
proof -
  from assms(1) have u: "n < 256 ^ k" and l: "length bs = k + length r"
    by (auto elim: read_numberE)
  from assms(2) u have b: "n < 2 ^ 32" by auto
  from assms(2) u have "(if n < 2 ^ 4 then 1 else if n < 2 ^ 16 then 3 else 5) \<le> Suc k"
    by auto
  with pack_map_header_length [OF b] show ?thesis
    unfolding l by auto
qed

lemma unpack_header_array_count:
  assumes "unpack_header tag bs = Inr (Elements n, r)"
  shows "\<exists>h. pack_array_header n = Inr h \<and> length h + length r \<le> Suc (length bs)"
proof (cases "0x90 \<le> unat tag \<and> unat tag < 0xA0")
  case True
  with assms have n: "n = unat tag - 0x90" and r: "r = bs"
    by (simp_all add: unpack_header_fixarray)
  from True have "n < 16" unfolding n by linarith
  then have "n < 2 ^ 32" "(if n < 2 ^ 4 then 1 else if n < 2 ^ 16 then 3 else 5) = (1 :: nat)"
    by simp_all
  with pack_array_header_length [of n] show ?thesis
    unfolding r by auto
next
  case False
  with assms show ?thesis
    unfolding unpack_header_def Let_def
    by (auto split: if_splits simp: payload_not_count number_not_count intro: count_array)
qed

lemma unpack_header_map_count:
  assumes "unpack_header tag bs = Inr (Pairs n, r)"
  shows "\<exists>h. pack_map_header n = Inr h \<and> length h + length r \<le> Suc (length bs)"
proof (cases "0x80 \<le> unat tag \<and> unat tag < 0x90")
  case True
  with assms have n: "n = unat tag - 0x80" and r: "r = bs"
    by (simp_all add: unpack_header_fixmap)
  from True have "n < 16" unfolding n by linarith
  then have "n < 2 ^ 32" "(if n < 2 ^ 4 then 1 else if n < 2 ^ 16 then 3 else 5) = (1 :: nat)"
    by simp_all
  with pack_map_header_length [of n] show ?thesis
    unfolding r by auto
next
  case False
  with assms show ?thesis
    unfolding unpack_header_def Let_def
    by (auto split: if_splits simp: payload_not_count number_not_count intro: count_map)
qed

lemma packb_unpack:
  "\<forall>v rest. unpack bs = Inr (v, rest) \<longrightarrow>
     (\<exists>e. packb v = Inr e \<and> length e + length rest \<le> length bs)"
  "\<forall>vs rest. unpack_all n cs = Inr (vs, rest) \<longrightarrow>
     length vs = n \<and> (\<exists>e. packb_all vs = Inr e \<and> length e + length rest \<le> length cs)"
  "\<forall>kvs rest. unpack_items m ds = Inr (kvs, rest) \<longrightarrow>
     length kvs = m \<and> (\<exists>e. packb_items kvs = Inr e \<and> length e + length rest \<le> length ds)"
proof (induction bs and n cs and m ds rule: unpack_unpack_all_unpack_items.induct)
  case 1
  show ?case by simp
next
  case (2 tag rest0)
  show ?case
  proof (intro allI impI)
    fix v rest assume a: "unpack (tag # rest0) = Inr (v, rest)"
    then obtain hdr r where h: "unpack_header tag rest0 = Inr (hdr, r)"
      by (auto split: sum.splits)
    show "\<exists>e. packb v = Inr e \<and> length e + length rest \<le> length (tag # rest0)"
    proof (cases hdr)
      case (Scalar w)
      with a h have "w = v" "r = rest" by simp_all
      with h Scalar unpack_header_scalar [of tag rest0 v rest] show ?thesis by simp
    next
      case (Elements k)
      with a h obtain xs where le: "length r \<le> length rest0"
        and u: "unpack_all k r = Inr (xs, rest)" and v: "v = PList xs"
        by (auto split: if_splits sum.splits)
      from 2(1) [OF h refl Elements le] u obtain e where lx: "length xs = k"
        and e: "packb_all xs = Inr e" and el: "length e + length rest \<le> length r"
        by blast
      from unpack_header_array_count [OF h [unfolded Elements]]
      obtain hb where hb: "pack_array_header k = Inr hb"
        and hl: "length hb + length r \<le> Suc (length rest0)"
        by blast
      show ?thesis
        using e el hb hl by (simp add: v lx)
    next
      case (Pairs k)
      with a h obtain kvs where le: "length r \<le> length rest0"
        and u: "unpack_items k r = Inr (kvs, rest)" and v: "v = PDict kvs"
        by (auto split: if_splits sum.splits)
      from 2(2) [OF h refl Pairs le] u obtain e where lx: "length kvs = k"
        and e: "packb_items kvs = Inr e" and el: "length e + length rest \<le> length r"
        by blast
      from unpack_header_map_count [OF h [unfolded Pairs]]
      obtain hb where hb: "pack_map_header k = Inr hb"
        and hl: "length hb + length r \<le> Suc (length rest0)"
        by blast
      show ?thesis
        using e el hb hl by (simp add: v lx)
    qed
  qed
next
  case (3 bs)
  show ?case by simp
next
  case (4 n bs)
  show ?case
  proof (intro allI impI)
    fix vs rest assume a: "unpack_all (Suc n) bs = Inr (vs, rest)"
    then obtain x r xs where u: "unpack bs = Inr (x, r)" and lt: "length r < length bs"
      and ua: "unpack_all n r = Inr (xs, rest)" and vs: "vs = x # xs"
      by (auto split: if_splits sum.splits)
    from 4(1) u obtain e1 where e1: "packb x = Inr e1" and l1: "length e1 + length r \<le> length bs"
      by blast
    from 4(2) [OF u refl lt] ua obtain e2 where lx: "length xs = n"
      and e2: "packb_all xs = Inr e2" and l2: "length e2 + length rest \<le> length r"
      by blast
    show "length vs = Suc n
          \<and> (\<exists>e. packb_all vs = Inr e \<and> length e + length rest \<le> length bs)"
      using e1 l1 e2 l2 by (simp add: vs lx)
  qed
next
  case (5 bs)
  show ?case by simp
next
  case (6 n bs)
  show ?case
  proof (intro allI impI)
    fix kvs rest assume a: "unpack_items (Suc n) bs = Inr (kvs, rest)"
    then obtain k r1 v r2 xs where uk: "unpack bs = Inr (k, r1)" and lt1: "length r1 < length bs"
      and uv: "unpack r1 = Inr (v, r2)" and lt2: "length r2 < length r1"
      and ui: "unpack_items n r2 = Inr (xs, rest)" and kvs: "kvs = (k, v) # xs"
      by (auto split: if_splits sum.splits)
    from 6(1) uk obtain e1 where e1: "packb k = Inr e1" and l1: "length e1 + length r1 \<le> length bs"
      by blast
    from 6(2) [OF uk refl lt1] uv obtain e2 where e2: "packb v = Inr e2"
      and l2: "length e2 + length r2 \<le> length r1"
      by blast
    from 6(3) [OF uk refl lt1 uv refl lt2] ui obtain e3 where lx: "length xs = n"
      and e3: "packb_items xs = Inr e3" and l3: "length e3 + length rest \<le> length r2"
      by blast
    show "length kvs = Suc n
          \<and> (\<exists>e. packb_items kvs = Inr e \<and> length e + length rest \<le> length bs)"
      using e1 l1 e2 l2 e3 l3 by (simp add: kvs lx)
  qed
qed

lemma packb_shortest:
  assumes "unpackb bs = Inr v"
  shows "\<exists>e. packb v = Inr e \<and> length e \<le> length bs"
proof -
  from assms have "unpack bs = Inr (v, [])"
    by (auto simp: unpackb_def split: sum.splits if_splits)
  with packb_unpack(1) [of bs] show ?thesis by fastforce
qed

lemma be_bytes_1: "be_bytes (Suc 0) (int n) = [of_nat n]"
  by (simp add: be_bytes_def)

lemma pack_string_packb: "pack_string s = Inr bs \<Longrightarrow> packb (PStr s) = Inr bs"
  by (auto simp: pack_string_def pack_str_def Let_def be_bytes_1 split: if_splits)

lemma pack_bytes_packb: "pack_bytes b = Inr bs \<Longrightarrow> packb (PBytes b) = Inr bs"
  by (auto simp: pack_bytes_def pack_bin_def Let_def be_bytes_1 split: if_splits)

lemmas unpack_eval_simps =
  unpackb_def unpack_header_def Let_def read_sized_def read_number_def read_uint_def
  read_payload_def take_bytes_def be_value_def decode_chars_def signed_value_def

text \<open>
  C8. The encoder writes each value in the smallest form of the format that holds it
  without loss. The byte sequences are those that the tests of tests.py assert:
  \<^verbatim>\<open>'foo'\<close> is the fixstr \<^verbatim>\<open>A3 66 6F 6F\<close>, which is what \<^verbatim>\<open>pack_string\<close> of tests.py
  builds; None is \<^verbatim>\<open>C0\<close>, True \<^verbatim>\<open>C3\<close>, False \<^verbatim>\<open>C2\<close>; 127 is the positive fixint
  \<^verbatim>\<open>7F\<close>, 128 the uint8 \<^verbatim>\<open>CC 80\<close>, -32 the negative fixint \<^verbatim>\<open>E0\<close>; the powers of two
  of the tests take the next wider form; the empty sequence is \<^verbatim>\<open>90\<close> and the mapping
  of \<^verbatim>\<open>'one'\<close> to \<^verbatim>\<open>'two'\<close> is a fixmap of two fixstr. For every value, scalar,
  sequence or mapping: what \<^verbatim>\<open>pack_string\<close> and \<^verbatim>\<open>pack_bytes\<close> of tests.py build is what
  the encoder writes; decoding the encoding gives the value back (nothing is lost); and
  every byte string that decodes to the value, in whatever forms, is at least as long as
  the encoding (no smaller form holds it).
\<close>

theorem packb_smallest_form:
  "packb (PStr ''foo'') = Inr [0xA3, 0x66, 0x6F, 0x6F]
   \<and> packb PNone = Inr [0xC0]
   \<and> packb (PBool True) = Inr [0xC3]
   \<and> packb (PBool False) = Inr [0xC2]
   \<and> packb (PInt 127) = Inr [0x7F]
   \<and> packb (PInt 128) = Inr [0xCC, 0x80]
   \<and> packb (PInt (- 32)) = Inr [0xE0]
   \<and> packb (PInt (2 ^ 8)) = Inr [0xCD, 0x01, 0x00]
   \<and> packb (PInt (2 ^ 16)) = Inr [0xCE, 0x00, 0x01, 0x00, 0x00]
   \<and> packb (PInt (2 ^ 32)) = Inr [0xCF, 0x00, 0x00, 0x00, 0x01, 0x00, 0x00, 0x00, 0x00]
   \<and> packb (PInt (- 1)) = Inr [0xFF]
   \<and> packb (PInt (- (2 ^ 7))) = Inr [0xD0, 0x80]
   \<and> packb (PInt (- (2 ^ 15))) = Inr [0xD1, 0x80, 0x00]
   \<and> packb (PInt (- (2 ^ 31))) = Inr [0xD2, 0x80, 0x00, 0x00, 0x00]
   \<and> packb (PInt (- (2 ^ 63))) = Inr [0xD3, 0x80, 0x00, 0x00, 0x00, 0x00, 0x00, 0x00, 0x00]
   \<and> packb (PList []) = Inr [0x90]
   \<and> packb (PDict [(PStr ''one'', PStr ''two'')])
       = Inr [0x81, 0xA3, 0x6F, 0x6E, 0x65, 0xA3, 0x74, 0x77, 0x6F]
   \<and> pack_string ''foo'' = packb (PStr ''foo'')
   \<and> (\<forall>s bs. pack_string s = Inr bs \<longrightarrow> packb (PStr s) = Inr bs)
   \<and> (\<forall>b bs. pack_bytes b = Inr bs \<longrightarrow> packb (PBytes b) = Inr bs)
   \<and> (\<forall>v bs. packb v = Inr bs \<longrightarrow> unpackb bs = Inr v)
   \<and> (\<forall>v bs. unpackb bs = Inr v \<longrightarrow> (\<exists>e. packb v = Inr e \<and> length e \<le> length bs))
   \<and> (\<forall>v e bs. packb v = Inr e \<and> unpackb bs = Inr v \<longrightarrow> length e \<le> length bs)"
proof -
  have foo: "packb (PStr ''foo'') = Inr [0xA3, 0x66, 0x6F, 0x6F]"
    by (simp add: pack_str_def encode_chars_def)
  have ps: "pack_string ''foo'' = packb (PStr ''foo'')"
    unfolding foo by (simp add: pack_string_def encode_chars_def)
  have fixed: "packb PNone = Inr [0xC0]" "packb (PBool True) = Inr [0xC3]"
    "packb (PBool False) = Inr [0xC2]"
    by simp_all
  have ints: "packb (PInt 127) = Inr [0x7F]"
    "packb (PInt 128) = Inr [0xCC, 0x80]"
    "packb (PInt (- 32)) = Inr [0xE0]"
    "packb (PInt (2 ^ 8)) = Inr [0xCD, 0x01, 0x00]"
    "packb (PInt (2 ^ 16)) = Inr [0xCE, 0x00, 0x01, 0x00, 0x00]"
    "packb (PInt (2 ^ 32)) = Inr [0xCF, 0x00, 0x00, 0x00, 0x01, 0x00, 0x00, 0x00, 0x00]"
    "packb (PInt (- 1)) = Inr [0xFF]"
    "packb (PInt (- (2 ^ 7))) = Inr [0xD0, 0x80]"
    "packb (PInt (- (2 ^ 15))) = Inr [0xD1, 0x80, 0x00]"
    "packb (PInt (- (2 ^ 31))) = Inr [0xD2, 0x80, 0x00, 0x00, 0x00]"
    "packb (PInt (- (2 ^ 63))) = Inr [0xD3, 0x80, 0x00, 0x00, 0x00, 0x00, 0x00, 0x00, 0x00]"
    by (simp_all add: pack_integer_def be_bytes_def upt_rec)
  have empty: "packb (PList []) = Inr [0x90]"
    by (simp add: pack_array_header_def)
  have dict: "packb (PDict [(PStr ''one'', PStr ''two'')])
       = Inr [0x81, 0xA3, 0x6F, 0x6E, 0x65, 0xA3, 0x74, 0x77, 0x6F]"
    by (simp add: pack_map_header_def pack_str_def encode_chars_def)
  have strings: "\<forall>s bs. pack_string s = Inr bs \<longrightarrow> packb (PStr s) = Inr bs"
    using pack_string_packb by blast
  have buffers: "\<forall>b bs. pack_bytes b = Inr bs \<longrightarrow> packb (PBytes b) = Inr bs"
    using pack_bytes_packb by blast
  have lossless: "\<forall>v bs. packb v = Inr bs \<longrightarrow> unpackb bs = Inr v"
    using unpackb_packb by blast
  have shortest: "\<forall>v bs. unpackb bs = Inr v \<longrightarrow> (\<exists>e. packb v = Inr e \<and> length e \<le> length bs)"
    using packb_shortest by blast
  have both: "\<forall>v e bs. packb v = Inr e \<and> unpackb bs = Inr v \<longrightarrow> length e \<le> length bs"
  proof (intro allI impI)
    fix v e bs assume a: "packb v = Inr e \<and> unpackb bs = Inr v"
    with packb_shortest [of bs v] obtain e' where "packb v = Inr e'" "length e' \<le> length bs"
      by blast
    with a show "length e \<le> length bs" by simp
  qed
  show ?thesis
    by (intro conjI; fact)
qed

theorem packb_smallest_form_witness:
  "packb (PDict [(PStr ''one'', PStr ''two'')])
     = Inr [0x81, 0xA3, 0x6F, 0x6E, 0x65, 0xA3, 0x74, 0x77, 0x6F]
   \<and> unpackb [0x81, 0xA3, 0x6F, 0x6E, 0x65, 0xA3, 0x74, 0x77, 0x6F]
       = Inr (PDict [(PStr ''one'', PStr ''two'')])
   \<and> packb (PInt (- (2 ^ 15))) = Inr [0xD1, 0x80, 0x00]
   \<and> unpackb [0xD1, 0x80, 0x00] = Inr (PInt (- (2 ^ 15)))
   \<and> unpackb [0xD9, 0x03, 0x66, 0x6F, 0x6F] = Inr (PStr ''foo'')
   \<and> unpackb [0xCD, 0x00, 0x7F] = Inr (PInt 127)
   \<and> packb (PStr ''foo'') = Inr [0xA3, 0x66, 0x6F, 0x6F]
   \<and> length [0xA3, 0x66, 0x6F, 0x6F :: byte] \<le> length [0xD9, 0x03, 0x66, 0x6F, 0x6F :: byte]
   \<and> pack_string ''foo'' = Inr [0xA3, 0x66, 0x6F, 0x6F]
   \<and> pack_bytes [1, 2] = Inr [0xC4, 2, 1, 2]
   \<and> packb (PBytes [1, 2]) = Inr [0xC4, 2, 1, 2]"
proof -
  note t = packb_smallest_form
  have d: "packb (PDict [(PStr ''one'', PStr ''two'')])
     = Inr [0x81, 0xA3, 0x6F, 0x6E, 0x65, 0xA3, 0x74, 0x77, 0x6F]"
    using t by blast
  have i: "packb (PInt (- (2 ^ 15))) = Inr [0xD1, 0x80, 0x00]"
    using t by blast
  have f: "packb (PStr ''foo'') = Inr [0xA3, 0x66, 0x6F, 0x6F]"
    using t by blast
  have lossless: "\<forall>v bs. packb v = Inr bs \<longrightarrow> unpackb bs = Inr v"
    using t by blast
  from lossless d have ud: "unpackb [0x81, 0xA3, 0x6F, 0x6E, 0x65, 0xA3, 0x74, 0x77, 0x6F]
       = Inr (PDict [(PStr ''one'', PStr ''two'')])"
    by blast
  from lossless i have ui: "unpackb [0xD1, 0x80, 0x00] = Inr (PInt (- (2 ^ 15)))"
    by blast
  have chars: "decode_chars [0x66, 0x6F, 0x6F] = ''foo''"
    by code_simp
  have us: "unpackb [0xD9, 0x03, 0x66, 0x6F, 0x6F] = Inr (PStr ''foo'')"
    by (simp add: unpackb_def unpack_header_def Let_def read_sized_def read_number_def
          read_uint_def read_payload_def take_bytes_def be_value_def chars)
  have un: "unpackb [0xCD, 0x00, 0x7F] = Inr (PInt 127)"
    by (simp add: unpack_eval_simps)
  have both: "\<forall>v e bs. packb v = Inr e \<and> unpackb bs = Inr v \<longrightarrow> length e \<le> length bs"
    using t by blast
  with f us have le: "length [0xA3, 0x66, 0x6F, 0x6F :: byte]
                        \<le> length [0xD9, 0x03, 0x66, 0x6F, 0x6F :: byte]"
    by blast
  have ps: "pack_string ''foo'' = Inr [0xA3, 0x66, 0x6F, 0x6F]"
    using t by simp
  have pb: "pack_bytes [1, 2] = Inr [0xC4, 2, 1, 2]"
    by (simp add: pack_bytes_def)
  have "\<forall>b bs. pack_bytes b = Inr bs \<longrightarrow> packb (PBytes b) = Inr bs"
    using t by blast
  with pb have bb: "packb (PBytes [1, 2]) = Inr [0xC4, 2, 1, 2]"
    by blast
  from d ud i ui us un f le ps pb bb show ?thesis by blast
qed

end
